theory Spec2Isabelle
  imports Main "HOL-Library.Sublist"
begin

section \<open>Strings\<close>

text \<open>
  A Python \<open>str\<close> is modelled as a \<open>string\<close>, one \<open>char\<close> per character
  (code points below 256).  The helpers below are the \<open>str\<close> methods that
  \<open>api/copy.py\<close> and the library functions it calls use.
\<close>

definition startswith :: "string \<Rightarrow> string \<Rightarrow> bool" where
  "startswith s p = (take (length p) s = p)"

definition endswith :: "string \<Rightarrow> string \<Rightarrow> bool" where
  "endswith s p = (length p \<le> length s \<and> drop (length s - length p) s = p)"

text \<open>\<open>s.lstrip(cs)\<close>, \<open>s.rstrip(cs)\<close> and \<open>s.strip(cs)\<close> for a set of characters.\<close>

definition lstrip :: "string \<Rightarrow> string \<Rightarrow> string" where
  "lstrip cs s = dropWhile (\<lambda>c. c \<in> set cs) s"

definition rstrip :: "string \<Rightarrow> string \<Rightarrow> string" where
  "rstrip cs s = rev (dropWhile (\<lambda>c. c \<in> set cs) (rev s))"

definition strip :: "string \<Rightarrow> string \<Rightarrow> string" where
  "strip cs s = rstrip cs (lstrip cs s)"

text \<open>\<open>s.split(sep)\<close> for a one-character separator: always at least one piece.\<close>

fun split_on :: "char \<Rightarrow> string \<Rightarrow> string list" where
  "split_on sep [] = [[]]"
| "split_on sep (c # cs) =
     (if c = sep then [] # split_on sep cs
      else (case split_on sep cs of
              [] \<Rightarrow> [[c]]
            | p # ps \<Rightarrow> (c # p) # ps))"

text \<open>\<open>sep.join(parts)\<close>.\<close>

fun join_with :: "string \<Rightarrow> string list \<Rightarrow> string" where
  "join_with sep [] = []"
| "join_with sep [p] = p"
| "join_with sep (p # q # ps) = p @ sep @ join_with sep (q # ps)"

text \<open>\<open>ord(c)\<close>.\<close>

definition ord :: "char \<Rightarrow> nat" where
  "ord c = of_char c"

definition is_digit :: "char \<Rightarrow> bool" where
  "is_digit c = (48 \<le> ord c \<and> ord c \<le> 57)"

definition is_lower :: "char \<Rightarrow> bool" where
  "is_lower c = (97 \<le> ord c \<and> ord c \<le> 122)"

definition is_upper :: "char \<Rightarrow> bool" where
  "is_upper c = (65 \<le> ord c \<and> ord c \<le> 90)"

definition is_alpha :: "char \<Rightarrow> bool" where
  "is_alpha c = (is_lower c \<or> is_upper c)"

definition is_alnum :: "char \<Rightarrow> bool" where
  "is_alnum c = (is_digit c \<or> is_alpha c)"

definition lower_char :: "char \<Rightarrow> char" where
  "lower_char c = (if is_upper c then char_of (ord c + 32) else c)"

definition lower :: "string \<Rightarrow> string" where
  "lower s = map lower_char s"

section \<open>The library functions the program calls\<close>

subsection \<open>\<open>urllib.parse\<close>\<close>

text \<open>
  \<open>urlparse\<close>, \<open>urlunparse\<close> and \<open>urljoin\<close> of the standard library, for \<open>str\<close>
  arguments and the default \<open>allow_fragments=True\<close>.  The library raises \<open>ValueError\<close>
  for a malformed bracketed host in the network location; such URLs are outside this
  model, which returns the components without that check.
\<close>

record parsed =
  scheme :: string
  netloc :: string
  path :: string
  params :: string
  query :: string
  fragment :: string

definition uses_relative :: "string list" where
  "uses_relative = ['''', ''ftp'', ''http'', ''gopher'', ''nntp'', ''imap'',
     ''wais'', ''file'', ''https'', ''shttp'', ''mms'',
     ''prospero'', ''rtsp'', ''rtsps'', ''rtspu'', ''sftp'',
     ''svn'', ''svn+ssh'', ''ws'', ''wss'']"

definition uses_netloc :: "string list" where
  "uses_netloc = ['''', ''ftp'', ''http'', ''gopher'', ''nntp'', ''telnet'',
     ''imap'', ''wais'', ''file'', ''mms'', ''https'', ''shttp'',
     ''snews'', ''prospero'', ''rtsp'', ''rtsps'', ''rtspu'', ''rsync'',
     ''svn'', ''svn+ssh'', ''sftp'', ''nfs'', ''git'', ''git+ssh'',
     ''ws'', ''wss'']"

definition uses_params :: "string list" where
  "uses_params = ['''', ''ftp'', ''hdl'', ''prospero'', ''http'', ''imap'',
     ''https'', ''shttp'', ''rtsp'', ''rtsps'', ''rtspu'', ''sip'',
     ''sips'', ''mms'', ''sftp'', ''tel'']"

definition scheme_char :: "char \<Rightarrow> bool" where
  "scheme_char c = (is_alnum c \<or> c \<in> set ''+-.'')"

text \<open>Leading C0 control characters and spaces are stripped; tab, CR and LF are removed.\<close>

definition c0_control_or_space :: "char \<Rightarrow> bool" where
  "c0_control_or_space c = (ord c \<le> 32)"

definition unsafe_url_byte :: "char \<Rightarrow> bool" where
  "unsafe_url_byte c = (ord c = 9 \<or> ord c = 13 \<or> ord c = 10)"

text \<open>What is before and what is after the first occurrence of a character.\<close>

definition before_first :: "char \<Rightarrow> string \<Rightarrow> string" where
  "before_first c s = takeWhile (\<lambda>x. x \<noteq> c) s"

definition after_first :: "char \<Rightarrow> string \<Rightarrow> string" where
  "after_first c s = drop 1 (dropWhile (\<lambda>x. x \<noteq> c) s)"

definition splitnetloc :: "string \<Rightarrow> string \<times> string" where
  "splitnetloc url =
     (takeWhile (\<lambda>c. c \<notin> set ''/?#'') (drop 2 url),
      dropWhile (\<lambda>c. c \<notin> set ''/?#'') (drop 2 url))"

text \<open>The steps of \<open>urlsplit\<close>: scheme, network location, fragment, query.\<close>

definition split_scheme :: "string \<Rightarrow> string \<Rightarrow> string \<times> string" where
  "split_scheme url dflt =
     (let pre = before_first CHR '':'' url
      in if CHR '':'' \<in> set url \<and> pre \<noteq> [] \<and> is_alpha (hd pre) \<and> list_all scheme_char pre
         then (lower pre, after_first CHR '':'' url)
         else (dflt, url))"

definition split_netloc :: "string \<Rightarrow> string \<times> string" where
  "split_netloc url = (if take 2 url = ''//'' then splitnetloc url else ([], url))"

definition split_once :: "char \<Rightarrow> string \<Rightarrow> string \<times> string" where
  "split_once c url =
     (if c \<in> set url then (before_first c url, after_first c url) else (url, []))"

definition urlsplit :: "string \<Rightarrow> string \<Rightarrow> parsed" where
  "urlsplit url0 scheme0 =
     (let url1 = filter (\<lambda>c. \<not> unsafe_url_byte c) (dropWhile c0_control_or_space url0);
          scheme1 = filter (\<lambda>c. \<not> unsafe_url_byte c)
                      (rev (dropWhile c0_control_or_space
                         (rev (dropWhile c0_control_or_space scheme0))));
          s = split_scheme url1 scheme1;
          n = split_netloc (snd s);
          f = split_once CHR ''#'' (snd n);
          q = split_once CHR ''?'' (fst f)
      in \<lparr>scheme = fst s, netloc = fst n, path = fst q, params = [],
          query = snd q, fragment = snd f\<rparr>)"

text \<open>
  \<open>_splitparams\<close>: the parameters are what follows the first \<open>;\<close> of the last path
  segment.
\<close>

definition splitparams :: "string \<Rightarrow> string \<times> string" where
  "splitparams url =
     (if CHR ''/'' \<in> set url then
        (let seg = rev (before_first CHR ''/'' (rev url));
             hd_part = take (length url - length seg) url
         in if CHR '';'' \<in> set seg
            then (hd_part @ before_first CHR '';'' seg, after_first CHR '';'' seg)
            else (url, []))
      else (before_first CHR '';'' url, after_first CHR '';'' url))"

definition urlparse_with :: "string \<Rightarrow> string \<Rightarrow> parsed" where
  "urlparse_with url scheme0 =
     (let r = urlsplit url scheme0
      in if scheme r \<in> set uses_params \<and> CHR '';'' \<in> set (path r)
         then r\<lparr>path := fst (splitparams (path r)), params := snd (splitparams (path r))\<rparr>
         else r)"

definition urlparse :: "string \<Rightarrow> parsed" where
  "urlparse url = urlparse_with url []"

definition urlunsplit :: "string \<Rightarrow> string \<Rightarrow> string \<Rightarrow> string \<Rightarrow> string \<Rightarrow> string" where
  "urlunsplit sch loc url0 qry frag =
     (let url1 = (if loc \<noteq> [] \<or> (sch \<noteq> [] \<and> sch \<in> set uses_netloc) \<or> take 2 url0 = ''//''
                  then ''//'' @ loc @ (if url0 \<noteq> [] \<and> take 1 url0 \<noteq> ''/'' then ''/'' @ url0 else url0)
                  else url0);
          url2 = (if sch \<noteq> [] then sch @ '':'' @ url1 else url1);
          url3 = (if qry \<noteq> [] then url2 @ ''?'' @ qry else url2)
      in if frag \<noteq> [] then url3 @ ''#'' @ frag else url3)"

definition urlunparse :: "parsed \<Rightarrow> string" where
  "urlunparse p =
     urlunsplit (scheme p) (netloc p)
       (if params p \<noteq> [] then path p @ '';'' @ params p else path p)
       (query p) (fragment p)"

text \<open>The loop of \<open>urljoin\<close> that removes the dot segments.\<close>

fun resolve_segments :: "string list \<Rightarrow> string list \<Rightarrow> string list" where
  "resolve_segments resolved [] = resolved"
| "resolve_segments resolved (seg # segs) =
     (if seg = ''..'' then resolve_segments (butlast resolved) segs
      else if seg = ''.'' then resolve_segments resolved segs
      else resolve_segments (resolved @ [seg]) segs)"

definition urljoin :: "string \<Rightarrow> string \<Rightarrow> string" where
  "urljoin base url =
     (if base = [] then url
      else if url = [] then base
      else
        (let b = urlparse_with base [];
             u = urlparse_with url (scheme b)
         in if scheme u \<noteq> scheme b \<or> scheme u \<notin> set uses_relative then url
            else if scheme u \<in> set uses_netloc \<and> netloc u \<noteq> [] then urlunparse u
            else
              (let loc = (if scheme u \<in> set uses_netloc then netloc b else netloc u)
               in if path u = [] \<and> params u = [] then
                    urlunparse (u\<lparr>netloc := loc, path := path b, params := params b,
                                 query := (if query u = [] then query b else query u)\<rparr>)
                  else
                    (let base_parts0 = split_on CHR ''/'' (path b);
                         base_parts = (if last base_parts0 \<noteq> [] then butlast base_parts0
                                       else base_parts0);
                         segments0 = (if take 1 (path u) = ''/'' then split_on CHR ''/'' (path u)
                                      else base_parts @ split_on CHR ''/'' (path u));
                         segments = (if take 1 (path u) = ''/'' \<or> length segments0 < 2
                                     then segments0
                                     else hd segments0
                                          # filter (\<lambda>s. s \<noteq> []) (butlast (tl segments0))
                                          @ [last segments0]);
                         resolved0 = resolve_segments [] segments;
                         resolved = (if last segments \<in> {''.'', ''..''} then resolved0 @ [[]]
                                     else resolved0);
                         joined = join_with ''/'' resolved
                     in urlunparse (u\<lparr>netloc := loc,
                                      path := (if joined = [] then ''/'' else joined)\<rparr>)))))"

subsection \<open>\<open>os.path\<close>\<close>

text \<open>\<open>posixpath.join\<close> of two components.\<close>

definition os_path_join :: "string \<Rightarrow> string \<Rightarrow> string" where
  "os_path_join a b =
     (if startswith b ''/'' then b
      else if a = [] \<or> endswith a ''/'' then a @ b
      else a @ ''/'' @ b)"

section \<open>Utilities of \<open>api/copy.py\<close>\<close>

definition CONCURRENT_DOWNLOADS :: nat where
  "CONCURRENT_DOWNLOADS = 8"

definition TMP_ROOT :: string where
  "TMP_ROOT = ''/tmp''"

definition ensure_scheme :: "string \<Rightarrow> string" where
  "ensure_scheme url =
     (if \<not> startswith url ''http://'' \<and> \<not> startswith url ''https://''
      then ''http://'' @ url else url)"

text \<open>The character class \<open>[\\:*?"<>|]\<close> and the class \<open>[^0-9a-zA-Z]\<close>.\<close>

definition unsafe_path_char :: "char \<Rightarrow> bool" where
  "unsafe_path_char c = (c \<in> set [CHR 0x5C, CHR '':'', CHR ''*'', CHR ''?'', CHR 0x22,
                                   CHR ''<'', CHR ''>'', CHR ''|''])"

definition re_sub_unsafe :: "string \<Rightarrow> string" where
  "re_sub_unsafe s = map (\<lambda>c. if unsafe_path_char c then CHR ''_'' else c) s"

definition re_sub_non_alnum :: "string \<Rightarrow> string" where
  "re_sub_non_alnum s = map (\<lambda>c. if is_alnum c then c else CHR ''_'') s"

definition safe_filename_from_url :: "string \<Rightarrow> string" where
  "safe_filename_from_url url =
     (let parsed = urlparse url;
          path0 = (if path parsed \<noteq> [] then path parsed else ''/'');
          path1 = (if endswith path0 ''/'' then path0 @ ''index.html'' else path0);
          filename0 = lstrip ''/'' path1;
          filename1 = (if filename0 = [] then ''index.html'' else filename0);
          host = map (\<lambda>c. if c = CHR '':'' then CHR ''_'' else c) (netloc parsed);
          filename2 = os_path_join host filename1;
          filename3 = re_sub_unsafe filename2
      in if query parsed \<noteq> []
         then filename3 @ ''_'' @ take 40 (re_sub_non_alnum (query parsed))
         else filename3)"

section \<open>Parsed pages\<close>

text \<open>
  BeautifulSoup is a library: the model takes the page as the parser returns it, the
  elements in document order, each with its tag name, its attribute dictionary (an
  association list; a multi-valued attribute such as \<open>rel\<close> holds its values joined
  by spaces) and \<open>el.string\<close>.
\<close>

record element =
  tag :: string
  attrs :: "(string \<times> string) list"
  text_of :: "string option"

type_synonym document = "element list"

text \<open>\<open>el.get(attr)\<close> and \<open>el[attr] = v\<close>.\<close>

definition get :: "element \<Rightarrow> string \<Rightarrow> string option" where
  "get el attr = map_of (attrs el) attr"

fun assign :: "'k \<Rightarrow> 'v \<Rightarrow> ('k \<times> 'v) list \<Rightarrow> ('k \<times> 'v) list" where
  "assign k v [] = [(k, v)]"
| "assign k v ((k', v') # kvs) = (if k = k' then (k, v) # kvs else (k', v') # assign k v kvs)"

definition set_attr :: "element \<Rightarrow> string \<Rightarrow> string \<Rightarrow> element" where
  "set_attr el attr v = el\<lparr>attrs := assign attr v (attrs el)\<rparr>"

text \<open>\<open>soup.find_all(tag)\<close> and \<open>soup.find_all(attr=True)\<close>.\<close>

definition find_all :: "document \<Rightarrow> string \<Rightarrow> element list" where
  "find_all doc t = filter (\<lambda>el. tag el = t) doc"

definition find_all_with :: "document \<Rightarrow> string \<Rightarrow> element list" where
  "find_all_with doc attr = filter (\<lambda>el. get el attr \<noteq> None) doc"

section \<open>Sets of URLs\<close>

text \<open>
  A Python \<open>set\<close> of strings is a list without duplicates, in the order of first
  insertion; \<open>list(s)\<close> enumerates it in that order.
\<close>

definition set_add :: "string list \<Rightarrow> string \<Rightarrow> string list" where
  "set_add s x = (if x \<in> set s then s else s @ [x])"

definition set_update :: "string list \<Rightarrow> string list \<Rightarrow> string list" where
  "set_update s xs = foldl set_add s xs"

definition set_discard :: "string list \<Rightarrow> string \<Rightarrow> string list" where
  "set_discard s x = removeAll x s"

section \<open>Regular expressions of the program\<close>

text \<open>The characters that \<open>strip(' \'"')\<close> removes, and the white space of \<open>\s\<close> and \<open>strip()\<close>.\<close>

definition quote_chars :: string where
  "quote_chars = [CHR '' '', CHR 0x27, CHR 0x22]"

definition is_space :: "char \<Rightarrow> bool" where
  "is_space c = (ord c \<in> set [9, 10, 11, 12, 13, 28, 29, 30, 31, 32, 133, 160])"

definition py_strip :: "string \<Rightarrow> string" where
  "py_strip s = rev (dropWhile is_space (rev (dropWhile is_space s)))"

text \<open>
  \<open>url\(([^)]+)\)\<close> matched at the start of a string: the group and what follows the
  match.
\<close>

definition match_css_url :: "string \<Rightarrow> (string \<times> string) option" where
  "match_css_url s =
     (if startswith s ''url('' then
        (let body = takeWhile (\<lambda>c. c \<noteq> CHR '')'') (drop 4 s);
             rest = dropWhile (\<lambda>c. c \<noteq> CHR '')'') (drop 4 s)
         in if body \<noteq> [] \<and> rest \<noteq> [] then Some (body, tl rest) else None)
      else None)"

lemma match_css_url_shorter:
  "match_css_url s = Some (m, rest) \<Longrightarrow> length rest < length s"
proof -
  assume a: "match_css_url s = Some (m, rest)"
  let ?r = "dropWhile (\<lambda>c. c \<noteq> CHR '')'') (drop 4 s)"
  from a have "rest = tl ?r" "?r \<noteq> []"
    by (auto simp: match_css_url_def Let_def split: if_splits)
  then have "length rest < length ?r" by (cases ?r) simp_all
  also have "\<dots> \<le> length (drop 4 s)" by (rule length_dropWhile_le)
  also have "\<dots> \<le> length s" by simp
  finally show ?thesis .
qed

text \<open>\<open>re.findall(r"url\(([^)]+)\)", text)\<close>: the groups of the matches, left to right.\<close>

function findall_css_url :: "string \<Rightarrow> string list" where
  "findall_css_url [] = []"
| "findall_css_url (c # cs) =
     (case match_css_url (c # cs) of
        Some (m, rest) \<Rightarrow> m # findall_css_url rest
      | None \<Rightarrow> findall_css_url cs)"
  by pat_completeness auto
termination
  by (relation "measure length") (auto dest: match_css_url_shorter)

text \<open>\<open>re.sub(r"url\(([^)]+)\)", repl, text)\<close>.\<close>

function sub_css_url :: "(string \<Rightarrow> string) \<Rightarrow> string \<Rightarrow> string" where
  "sub_css_url repl [] = []"
| "sub_css_url repl (c # cs) =
     (case match_css_url (c # cs) of
        Some (m, rest) \<Rightarrow> repl m @ sub_css_url repl rest
      | None \<Rightarrow> c # sub_css_url repl cs)"
  by pat_completeness auto
termination
  by (relation "measure (\<lambda>(r, s). length s)") (auto dest: match_css_url_shorter)

text \<open>
  \<open>@import\s+(?:url\()?["\']?([^"\')]+)\<close> at the start of a string.  The white space
  is taken greedily and given back one character at a time; after it the optional
  \<open>url(\<close> and the optional quote are tried taken before not taken; the group is the
  longest run of characters other than the two quotes and \<open>)\<close>, and must not be empty.
\<close>

definition import_stop :: "char \<Rightarrow> bool" where
  "import_stop c = (c \<in> set [CHR 0x22, CHR 0x27, CHR '')''])"

definition opt_url_paren :: "string \<Rightarrow> string list" where
  "opt_url_paren s = (if startswith s ''url('' then [drop 4 s, s] else [s])"

definition opt_quote :: "string \<Rightarrow> string list" where
  "opt_quote s = (case s of
                    [] \<Rightarrow> [s]
                  | c # cs \<Rightarrow> if c = CHR 0x22 \<or> c = CHR 0x27 then [cs, s] else [s])"

definition import_group :: "string \<Rightarrow> (string \<times> string) list" where
  "import_group s = (if takeWhile (\<lambda>c. \<not> import_stop c) s \<noteq> []
                     then [(takeWhile (\<lambda>c. \<not> import_stop c) s,
                            dropWhile (\<lambda>c. \<not> import_stop c) s)]
                     else [])"

definition match_import :: "string \<Rightarrow> (string \<times> string) option" where
  "match_import s =
     (if startswith s ''@import'' then
        (let after = drop 7 s;
             n = length (takeWhile is_space after);
             tries = concat (map (\<lambda>k. concat (map (\<lambda>u. concat (map import_group (opt_quote u)))
                                                  (opt_url_paren (drop k after))))
                               (rev [1..<Suc n]))
         in case tries of [] \<Rightarrow> None | t # _ \<Rightarrow> Some t)
      else None)"


lemma import_group_shorter: "(m, rest) \<in> set (import_group u) \<Longrightarrow> length rest \<le> length u"
  by (auto simp: import_group_def length_dropWhile_le split: if_splits)

lemma opt_quote_shorter: "u \<in> set (opt_quote s) \<Longrightarrow> length u \<le> length s"
  by (auto simp: opt_quote_def split: list.splits if_splits)

lemma opt_url_paren_shorter: "u \<in> set (opt_url_paren s) \<Longrightarrow> length u \<le> length s"
  by (auto simp: opt_url_paren_def split: if_splits)

lemma match_import_shorter:
  assumes "match_import s = Some (m, rest)"
  shows "length rest < length s"
proof -
  from assms have sw: "startswith s ''@import''"
    by (simp add: match_import_def split: if_splits)
  then have "length (take (length ''@import'') s) = length ''@import''"
    unfolding startswith_def by (rule arg_cong)
  then have len: "7 \<le> length s" by (simp add: eval_nat_numeral min_def split: if_splits)
  define after where "after = drop 7 s"
  define n where "n = length (takeWhile is_space after)"
  define tries where "tries = concat (map (\<lambda>k. concat (map (\<lambda>u. concat (map import_group (opt_quote u)))
                                                  (opt_url_paren (drop k after))))
                               (rev [1..<Suc n]))"
  have "match_import s = (case tries of [] \<Rightarrow> None | t # _ \<Rightarrow> Some t)"
    using sw by (simp add: match_import_def Let_def tries_def after_def n_def)
  with assms have "(m, rest) \<in> set tries"
    by (cases tries) auto
  then obtain k u v where k: "1 \<le> k" and u: "u \<in> set (opt_url_paren (drop k after))"
      and v: "v \<in> set (opt_quote u)" and g: "(m, rest) \<in> set (import_group v)"
    by (auto simp: tries_def)
  have "length rest \<le> length v" using g by (rule import_group_shorter)
  also have "\<dots> \<le> length u" using v by (rule opt_quote_shorter)
  also have "\<dots> \<le> length (drop k after)" using u by (rule opt_url_paren_shorter)
  also have "\<dots> \<le> length after" by simp
  finally have "length rest \<le> length s - 7" by (simp add: after_def)
  then show ?thesis using len by simp
qed

text \<open>\<open>re.findall\<close> of the import pattern.\<close>

function findall_import :: "string \<Rightarrow> string list" where
  "findall_import [] = []"
| "findall_import (c # cs) =
     (case match_import (c # cs) of
        Some (m, rest) \<Rightarrow> m # findall_import rest
      | None \<Rightarrow> findall_import cs)"
  by pat_completeness auto
termination
  by (relation "measure length") (auto dest: match_import_shorter)

text \<open>
  \<open>re.search(r"\.(css|js|png|jpg|jpeg|gif|svg|woff2?|ttf|eot|mp4|webm|ico)", href, re.I)\<close>
  as a truth value: a dot followed by one of the alternatives, anywhere in the string,
  letters compared without case (\<open>woff2?\<close> matches as soon as \<open>woff\<close> does).
\<close>

definition static_extensions :: "string list" where
  "static_extensions = [''css'', ''js'', ''png'', ''jpg'', ''jpeg'', ''gif'', ''svg'', ''woff'',
     ''ttf'', ''eot'', ''mp4'', ''webm'', ''ico'']"

fun search_static_extension :: "string \<Rightarrow> bool" where
  "search_static_extension [] = False"
| "search_static_extension (c # cs) =
     ((c = CHR ''.'' \<and> list_ex (\<lambda>e. startswith (lower cs) e) static_extensions)
      \<or> search_static_extension cs)"

text \<open>\<open>"stylesheet" in v\<close>.\<close>

fun contains :: "string \<Rightarrow> string \<Rightarrow> bool" where
  "contains [] p = (p = [])"
| "contains (c # cs) p = (startswith (c # cs) p \<or> contains cs p)"

section \<open>The Asset Extractor\<close>

definition tags_attrs :: "(string \<times> string) list" where
  "tags_attrs = [(''img'', ''src''), (''script'', ''src''), (''link'', ''href''),
     (''source'', ''src''), (''video'', ''poster''), (''audio'', ''src'')]"

text \<open>The values \<open>v = el.get(attr)\<close> with \<open>if v\<close>, over \<open>soup.find_all(tag)\<close>.\<close>

definition attr_values :: "document \<Rightarrow> string \<Rightarrow> string \<Rightarrow> string list" where
  "attr_values doc t a =
     concat (map (\<lambda>el. case get el a of
                          None \<Rightarrow> []
                        | Some v \<Rightarrow> if v \<noteq> [] then [v] else [])
                 (find_all doc t))"

text \<open>\<open>part.strip().split(" ")[0]\<close> for every \<open>part\<close> of \<open>ss.split(",")\<close>.\<close>

definition srcset_sources :: "string \<Rightarrow> string list" where
  "srcset_sources ss = map (\<lambda>part. before_first CHR '' '' (py_strip part)) (split_on CHR '','' ss)"

definition srcset_values :: "document \<Rightarrow> string list" where
  "srcset_values doc =
     concat (map (\<lambda>el. case get el ''srcset'' of
                          None \<Rightarrow> []
                        | Some ss \<Rightarrow> filter (\<lambda>src. src \<noteq> []) (srcset_sources ss))
                 (find_all_with doc ''srcset''))"

definition inline_style_values :: "document \<Rightarrow> string list" where
  "inline_style_values doc =
     concat (map (\<lambda>el. case get el ''style'' of
                          None \<Rightarrow> []
                        | Some style \<Rightarrow> map (strip quote_chars) (findall_css_url style))
                 (find_all_with doc ''style''))"

definition style_block_values :: "document \<Rightarrow> string list" where
  "style_block_values doc =
     concat (map (\<lambda>el. map (strip quote_chars)
                          (findall_css_url (case text_of el of None \<Rightarrow> [] | Some t \<Rightarrow> t)))
                 (find_all doc ''style''))"

text \<open>The anchors: \<open>if href and re.search(..., href, re.I)\<close>.\<close>

definition anchor_values :: "document \<Rightarrow> string list" where
  "anchor_values doc =
     concat (map (\<lambda>el. case get el ''href'' of
                          None \<Rightarrow> []
                        | Some href \<Rightarrow> if href \<noteq> [] \<and> search_static_extension href
                                       then [href] else [])
                 (find_all doc ''a''))"

definition find_asset_urls :: "string \<Rightarrow> document \<Rightarrow> string list" where
  "find_asset_urls base_url html =
     (let urls1 = foldl (\<lambda>urls ta. set_update urls
                           (map (urljoin base_url) (attr_values html (fst ta) (snd ta))))
                    [] tags_attrs;
          urls2 = set_update urls1 (map (urljoin base_url) (srcset_values html));
          urls3 = set_update urls2 (map (urljoin base_url) (inline_style_values html));
          urls4 = set_update urls3 (map (urljoin base_url) (style_block_values html))
      in set_update urls4 (map (urljoin base_url) (anchor_values html)))"

definition extract_css_urls_from_text :: "string \<Rightarrow> string \<Rightarrow> string list" where
  "extract_css_urls_from_text base_url css_text =
     (let urls1 = set_update []
                    (map (urljoin base_url)
                       (filter (\<lambda>mclean. mclean \<noteq> [])
                          (map (strip quote_chars) (findall_css_url css_text))))
      in set_update urls1 (map (urljoin base_url) (findall_import css_text)))"

section \<open>The Rewriter\<close>

definition rewrite_attr :: "string \<Rightarrow> element \<Rightarrow> string \<Rightarrow> element" where
  "rewrite_attr web_url el attr =
     (case get el attr of
        None \<Rightarrow> el
      | Some val \<Rightarrow> if val = [] then el
                    else set_attr el attr (safe_filename_from_url (urljoin web_url val)))"

definition rewrite_tag :: "string \<Rightarrow> string \<Rightarrow> string \<Rightarrow> document \<Rightarrow> document" where
  "rewrite_tag web_url t attr doc =
     map (\<lambda>el. if tag el = t then rewrite_attr web_url el attr else el) doc"

definition rewrite_srcset :: "string \<Rightarrow> element \<Rightarrow> element" where
  "rewrite_srcset web_url el =
     (case get el ''srcset'' of
        None \<Rightarrow> el
      | Some ss \<Rightarrow>
          set_attr el ''srcset''
            (join_with '', ''
               (map safe_filename_from_url (map (urljoin web_url) (srcset_sources ss)))))"

definition repl :: "string \<Rightarrow> string \<Rightarrow> string" where
  "repl web_url m =
     ''url('' @ [CHR 0x27] @ safe_filename_from_url (urljoin web_url (strip quote_chars m))
     @ [CHR 0x27] @ '')''"

definition rewrite_style :: "string \<Rightarrow> element \<Rightarrow> element" where
  "rewrite_style web_url el =
     (case get el ''style'' of
        None \<Rightarrow> el
      | Some style \<Rightarrow> set_attr el ''style'' (sub_css_url (repl web_url) style))"

definition rewrite_document :: "string \<Rightarrow> document \<Rightarrow> document" where
  "rewrite_document web_url doc =
     (let d1 = rewrite_tag web_url ''img'' ''src'' doc;
          d2 = rewrite_tag web_url ''script'' ''src'' d1;
          d3 = rewrite_tag web_url ''link'' ''href'' d2;
          d4 = rewrite_tag web_url ''source'' ''src'' d3;
          d5 = rewrite_tag web_url ''video'' ''poster'' d4;
          d6 = map (rewrite_srcset web_url) d5
      in map (rewrite_style web_url) d6)"

section \<open>The workspace on disk and the archive\<close>

record info =
  cloned_from :: string
  timestamp_utc :: string
  total_files_downloaded :: nat
  downloaded_bytes :: nat
  zip_name :: string

datatype file_data = Raw string | Page document | Manifest info

datatype node = File file_data | Dir "(string \<times> node) list"

text \<open>
  \<open>os.walk(top)\<close>, top down: for every directory its path, the names of its
  subdirectories and its files (each name with the data that \<open>zf.write\<close> then reads).
\<close>

fun os_walk :: "string \<Rightarrow> (string \<times> node) list
                  \<Rightarrow> (string \<times> string list \<times> (string \<times> file_data) list) list" where
  "os_walk dirpath entries =
     (dirpath,
      concat (map (\<lambda>e. case snd e of Dir _ \<Rightarrow> [fst e] | File _ \<Rightarrow> []) entries),
      concat (map (\<lambda>e. case snd e of Dir _ \<Rightarrow> [] | File d \<Rightarrow> [(fst e, d)]) entries))
     # concat (map (\<lambda>e. case snd e of
                           Dir sub \<Rightarrow> os_walk (os_path_join dirpath (fst e)) sub
                         | File _ \<Rightarrow> [])
                  entries)"

text \<open>
  \<open>os.path.relpath(path, start)\<close> for absolute paths: the components of both after
  \<open>normpath\<close>, the common prefix dropped, one \<open>..\<close> for every remaining component of
  \<open>start\<close>.
\<close>

definition norm_components :: "string \<Rightarrow> string list" where
  "norm_components p =
     foldl (\<lambda>acc x. if x = [] \<or> x = ''.'' then acc
                     else if x = ''..'' then butlast acc
                     else acc @ [x])
       [] (split_on CHR ''/'' p)"

fun commonprefix :: "string list \<Rightarrow> string list \<Rightarrow> string list" where
  "commonprefix (x # xs) (y # ys) = (if x = y then x # commonprefix xs ys else [])"
| "commonprefix _ _ = []"

definition relpath :: "string \<Rightarrow> string \<Rightarrow> string" where
  "relpath p start =
     (let start_list = norm_components start;
          path_list = norm_components p;
          i = length (commonprefix start_list path_list);
          rel_list = replicate (length start_list - i) ''..'' @ drop i path_list
      in if rel_list = [] then ''.'' else join_with ''/'' rel_list)"

text \<open>The loop that fills the archive: one entry \<open>(arcname, data)\<close> for every file.\<close>

definition zip_entries :: "string \<Rightarrow> (string \<times> node) list \<Rightarrow> (string \<times> file_data) list" where
  "zip_entries root entries =
     concat (map (\<lambda>(foldername, dirnames, filenames).
                    map (\<lambda>(filename, d). (relpath (os_path_join foldername filename) root, d))
                      filenames)
                 (os_walk root entries))"

section \<open>The pipeline \<open>sse_generator\<close>\<close>

text \<open>
  The events of the stream.  The program yields them as text
  (\<open>event: <kind>\ndata: <payload>\n\n\<close>); the model keeps the kind and the payload.
  An \<open>error\<close> event carries the stage and the message.
\<close>

datatype event =
    Status string
  | Meta nat
  | Asset string string nat
  | AssetError "string option" string
  | Progress nat nat
  | Error string string
  | Done string string nat

text \<open>
  How the generator ends: it returns, an exception leaves it, or it waits for ever on
  the semaphore.
\<close>

datatype ending = Returned | Raised string | Hung

text \<open>
  Everything outside the program that a run reads: the clock, the network and the disk.
  A request that raises (also through \<open>raise_for_status\<close>) is \<open>Inl\<close> of the message;
  \<open>write_error\<close> is the exception, if any, of creating and writing the file of a path;
  \<open>rewrite_error\<close> that of reading, parsing and writing back the page; \<open>zip_error\<close>
  that of writing the archive; \<open>disk\<close> is the content of the workspace directory when
  the manifest is written.  Times are in milliseconds.
\<close>

record env =
  utcnow_stamp :: string
  utcnow_iso :: string
  get_page :: "string \<Rightarrow> string + document"
  get_css :: "string \<Rightarrow> string + nat \<times> string"
  get_asset :: "string \<Rightarrow> string + string"
  write_error :: "string \<Rightarrow> string option"
  rewrite_error :: "string option"
  zip_error :: "string option"
  disk :: "(string \<times> node) list"
  time_start :: nat
  time_downloads :: nat
  time_batch :: "nat \<Rightarrow> nat"
  time_end :: nat

text \<open>The \<open>nonlocal\<close> variables of the download stage, and the free permits of \<open>sem\<close>.\<close>

record state =
  bytes_downloaded :: nat
  bytes_since_last :: nat
  last_update :: nat
  downloaded_files :: "(string \<times> string \<times> nat) list"
  sem :: nat

text \<open>What a run leaves: the stream, how it ended, the manifest and the archive written.\<close>

record run =
  events :: "event list"
  ending :: ending
  rewritten :: "document option"
  manifest :: "info option"
  workspace :: "(string \<times> node) list"
  archive :: "(string \<times> file_data) list option"

definition emit :: "event list \<Rightarrow> run \<Rightarrow> run" where
  "emit evs r = r\<lparr>events := evs @ events r\<rparr>"

definition stop :: "event list \<Rightarrow> ending \<Rightarrow> run" where
  "stop evs e = \<lparr>events = evs, ending = e, rewritten = None, manifest = None,
                 workspace = [], archive = None\<rparr>"

text \<open>
  \<open>download_and_save\<close> up to its single \<open>yield\<close>, once the semaphore is held: the
  event and the variables after it.
\<close>

definition download_and_save :: "env \<Rightarrow> string \<Rightarrow> state \<Rightarrow> string \<Rightarrow> event \<times> state" where
  "download_and_save env root st url =
     (case get_asset env url of
        Inl e \<Rightarrow> (AssetError (Some url) e, st)
      | Inr content \<Rightarrow>
          (let local_rel = safe_filename_from_url url;
               local_path = os_path_join root local_rel
           in case write_error env local_path of
                Some e \<Rightarrow> (AssetError (Some url) e, st)
              | None \<Rightarrow>
                  (Asset url local_path (length content),
                   st\<lparr>bytes_downloaded := bytes_downloaded st + length content,
                      bytes_since_last := bytes_since_last st + length content,
                      downloaded_files := downloaded_files st
                                          @ [(url, local_path, length content)]\<rparr>)))"

text \<open>
  \<open>asyncio.gather\<close> over \<open>consume(g)\<close> for the generators of one batch.  Each
  generator enters \<open>async with sem\<close> first: with no free permit it waits, and the gather
  never returns (\<open>None\<close>).  A generator that has yielded stays suspended inside
  \<open>async with sem\<close>: \<open>consume\<close> returns its event without resuming it, so its permit
  is not given back.
\<close>

fun gather :: "env \<Rightarrow> string \<Rightarrow> state \<Rightarrow> string list
                 \<Rightarrow> (string + event option) list option \<times> state" where
  "gather env root st [] = (Some [], st)"
| "gather env root st (url # urls) =
     (if sem st = 0 then (None, st)
      else
        (let (ev, st1) = download_and_save env root (st\<lparr>sem := sem st - 1\<rparr>) url;
             (rs, st2) = gather env root st1 urls
         in (map_option (\<lambda>rs. Inr (Some ev) # rs) rs, st2)))"

text \<open>The loop \<open>for res in results\<close>.\<close>

definition emitted :: "(string + event option) list \<Rightarrow> event list" where
  "emitted results =
     concat (map (\<lambda>res. case res of
                           Inl e \<Rightarrow> [AssetError None e]
                         | Inr None \<Rightarrow> []
                         | Inr (Some ev) \<Rightarrow> [ev])
                 results)"

definition progress :: "env \<Rightarrow> nat \<Rightarrow> state \<Rightarrow> event list \<times> state" where
  "progress env k st =
     (let now = time_batch env k;
          elapsed = now - last_update st
      in if elapsed \<ge> 500
         then ([Progress (bytes_downloaded st) (bytes_since_last st * 1000 div elapsed)],
               st\<lparr>bytes_since_last := 0, last_update := now\<rparr>)
         else ([], st))"

text \<open>
  \<open>run_tasks_and_emit\<close>: the batches of \<open>CONCURRENT_DOWNLOADS\<close> generators; the
  events yielded, the variables, and whether the loop came to its end.
\<close>

function run_tasks_and_emit :: "env \<Rightarrow> string \<Rightarrow> state \<Rightarrow> nat \<Rightarrow> string list
                                 \<Rightarrow> event list \<times> state \<times> bool" where
  "run_tasks_and_emit env root st k tasks =
     (if tasks = [] then ([], st, True)
      else
        (case gather env root st (take CONCURRENT_DOWNLOADS tasks) of
           (None, st1) \<Rightarrow> ([], st1, False)
         | (Some results, st1) \<Rightarrow>
             (let (pevs, st2) = progress env k st1;
                  (evs, st3, fin) = run_tasks_and_emit env root st2 (Suc k)
                                      (drop CONCURRENT_DOWNLOADS tasks)
              in (emitted results @ pevs @ evs, st3, fin))))"
  by pat_completeness auto
termination
  by (relation "measure (\<lambda>(env, root, st, k, tasks). length tasks)")
     (auto simp: CONCURRENT_DOWNLOADS_def)

declare run_tasks_and_emit.simps [simp del]

text \<open>\<open>write_json(root / "info.json", info)\<close> on the workspace directory.\<close>

definition write_json :: "env \<Rightarrow> string \<Rightarrow> (string \<times> node) list \<Rightarrow> info
                            \<Rightarrow> string + (string \<times> node) list" where
  "write_json env root entries i =
     (case write_error env (os_path_join root ''info.json'') of
        Some e \<Rightarrow> Inl e
      | None \<Rightarrow>
          (case map_of entries ''info.json'' of
             Some (Dir _) \<Rightarrow> Inl ''IsADirectoryError''
           | _ \<Rightarrow> Inr (assign ''info.json'' (File (Manifest i)) entries)))"

definition package_stage :: "env \<Rightarrow> string \<Rightarrow> string \<Rightarrow> document option \<Rightarrow> info option
                               \<Rightarrow> (string \<times> node) list \<Rightarrow> run" where
  "package_stage env root zipped_name page mf entries =
     (case zip_error env of
        Some e \<Rightarrow>
          \<lparr>events = [Status ''creating_zip'', Error ''zip_failed'' e], ending = Returned,
           rewritten = page, manifest = mf, workspace = entries, archive = None\<rparr>
      | None \<Rightarrow>
          \<lparr>events = [Status ''creating_zip'', Status ''zip_created'',
                     Done (os_path_join TMP_ROOT zipped_name) zipped_name
                       ((time_end env - time_start env) div 1000)],
           ending = Returned, rewritten = page, manifest = mf, workspace = entries,
           archive = Some (zip_entries root entries)\<rparr>)"

definition manifest_stage :: "env \<Rightarrow> string \<Rightarrow> string \<Rightarrow> string \<Rightarrow> document option
                                \<Rightarrow> state \<Rightarrow> run" where
  "manifest_stage env web_url root zipped_name page st =
     (let i = \<lparr>cloned_from = web_url, timestamp_utc = utcnow_iso env @ ''Z'',
                total_files_downloaded = length (downloaded_files st) + 1,
                downloaded_bytes = bytes_downloaded st, zip_name = zipped_name\<rparr>
      in case write_json env root (disk env) i of
           Inl e \<Rightarrow>
             emit [Status ''creating_info_json'', Error ''info_json_failed'' e]
               (package_stage env root zipped_name page None (disk env))
         | Inr entries \<Rightarrow>
             emit [Status ''creating_info_json'', Status ''info_json_created'']
               (package_stage env root zipped_name page (Some i) entries))"

definition rewrite_stage :: "env \<Rightarrow> string \<Rightarrow> string \<Rightarrow> string \<Rightarrow> document
                               \<Rightarrow> state \<Rightarrow> run" where
  "rewrite_stage env web_url root zipped_name html st =
     (case rewrite_error env of
        Some e \<Rightarrow>
          emit [Status ''rewriting_html'', Error ''rewrite_failed'' e]
            (manifest_stage env web_url root zipped_name None st)
      | None \<Rightarrow>
          emit [Status ''rewriting_html'', Status ''html_rewritten'']
            (manifest_stage env web_url root zipped_name
               (Some (rewrite_document web_url html)) st))"

definition download_stage :: "env \<Rightarrow> string \<Rightarrow> string \<Rightarrow> string \<Rightarrow> document
                                \<Rightarrow> string list \<Rightarrow> run" where
  "download_stage env web_url root zipped_name html url_list =
     (let st0 = \<lparr>bytes_downloaded = 0, bytes_since_last = 0,
                  last_update = time_downloads env, downloaded_files = [],
                  sem = CONCURRENT_DOWNLOADS\<rparr>;
          r = run_tasks_and_emit env root st0 0 url_list
      in if snd (snd r)
         then emit (fst r) (rewrite_stage env web_url root zipped_name html (fst (snd r)))
         else stop (fst r) Hung)"

text \<open>The links \<open>soup.find_all("link", rel=lambda v: v and "stylesheet" in v)\<close>.\<close>

definition css_links_of :: "string \<Rightarrow> document \<Rightarrow> string list" where
  "css_links_of web_url html =
     concat (map (\<lambda>link. case get link ''href'' of
                            None \<Rightarrow> []
                          | Some href \<Rightarrow> if href \<noteq> [] then [urljoin web_url href] else [])
                 (filter (\<lambda>el. case get el ''rel'' of
                                  None \<Rightarrow> False
                                | Some v \<Rightarrow> v \<noteq> [] \<and> contains v ''stylesheet'')
                    (find_all html ''link'')))"

text \<open>The loop that fetches the stylesheets: its events and the asset set after it.\<close>

fun fetch_css :: "env \<Rightarrow> string \<Rightarrow> string list \<Rightarrow> string list
                    \<Rightarrow> event list \<times> string list" where
  "fetch_css env web_url [] asset_urls = ([], asset_urls)"
| "fetch_css env web_url (css_url # rest) asset_urls =
     (let asset_urls1 =
            (case get_css env css_url of
               Inl e \<Rightarrow> asset_urls
             | Inr (status_code, css_text) \<Rightarrow>
                 if status_code = 200
                 then set_update asset_urls (extract_css_urls_from_text web_url css_text)
                 else asset_urls);
          (evs, asset_urls2) = fetch_css env web_url rest asset_urls1
      in (Status (''fetching_css '' @ css_url) # evs, asset_urls2))"

definition discover :: "env \<Rightarrow> string \<Rightarrow> document \<Rightarrow> event list \<times> string list" where
  "discover env web_url html =
     (let asset_urls0 = set_update [] (find_asset_urls web_url html);
          css_links = css_links_of web_url html;
          (evs, asset_urls1) = fetch_css env web_url css_links asset_urls0;
          asset_urls2 = set_update asset_urls1 css_links
      in (evs, set_discard asset_urls2 web_url))"

text \<open>
  \<open>make_workspace\<close> gives the fresh directory \<open>/tmp/stark_clone_<timestamp>\<close>; the
  name of the archive is made from \<open>root.name.split('_')[-1]\<close>.
\<close>

definition make_workspace :: "env \<Rightarrow> string" where
  "make_workspace env = os_path_join TMP_ROOT (''stark_clone_'' @ utcnow_stamp env)"

definition path_name :: "string \<Rightarrow> string" where
  "path_name p = last (split_on CHR ''/'' p)"

definition zipped_name_of :: "string \<Rightarrow> string" where
  "zipped_name_of root = ''stark_'' @ last (split_on CHR ''_'' (path_name root)) @ ''.zip''"

definition sse_generator :: "env \<Rightarrow> string \<Rightarrow> run" where
  "sse_generator env web =
     (let web_url = ensure_scheme web;
          root = make_workspace env;
          zipped_name = zipped_name_of root
      in case get_page env web_url of
           Inl e \<Rightarrow> stop [Status ''fetching_html'', Error ''failed_fetch_html'' e] Returned
         | Inr html \<Rightarrow>
             (let d = discover env web_url html;
                  total_items = length (snd d) + 1
              in emit ([Status ''fetching_html'', Status ''fetched_html'']
                       @ fst d @ [Meta total_items])
                   (case write_error env (os_path_join root ''index.html'') of
                      Some e \<Rightarrow> stop [] (Raised e)
                    | None \<Rightarrow> download_stage env web_url root zipped_name html (snd d))))"

section \<open>The Local Path Mapper as the specification words it\<close>

text \<open>
  The second definition of the local path, following the specification: the host with its
  colons replaced is the prefix, the path defaults to \<open>/index.html\<close> when empty or
  directory-like, the disallowed characters become \<open>_\<close>, and a present query adds
  \<open>_\<close> and its sanitised fingerprint of at most 40 characters.
\<close>

definition spec_default_path :: "string \<Rightarrow> string" where
  "spec_default_path p = (if p = [] then ''/index.html''
                          else if last p = CHR ''/'' then p @ ''index.html'' else p)"

definition spec_replace_colon :: "string \<Rightarrow> string" where
  "spec_replace_colon h = map (\<lambda>c. if c = CHR '':'' then CHR ''_'' else c) h"

definition spec_disallowed :: "char set" where
  "spec_disallowed = {CHR 0x5C, CHR '':'', CHR ''*'', CHR ''?'', CHR 0x22, CHR ''<'', CHR ''>'', CHR ''|''}"




section \<open>Measures on the event stream\<close>

text \<open>The \<open>size\<close> field of an \<open>asset\<close> event, and their sum over a stream.\<close>

definition asset_size :: "event \<Rightarrow> nat" where
  "asset_size ev = (case ev of Asset url saved n \<Rightarrow> n | _ \<Rightarrow> 0)"

definition asset_sizes :: "event list \<Rightarrow> nat" where
  "asset_sizes evs = sum_list (map asset_size evs)"

section \<open>Example runs\<close>

text \<open>
  A page at \<open>http://ex.com/\<close> with an image, an inline style and a stylesheet; the
  stylesheet imports another and names an icon; the download of \<open>b.png\<close> times out.
\<close>

definition example_page :: document where
  "example_page =
     [\<lparr>tag = ''img'', attrs = [(''src'', ''/a.png'')], text_of = None\<rparr>,
      \<lparr>tag = ''div'', attrs = [(''style'', ''background:url(/b.png)'')], text_of = None\<rparr>,
      \<lparr>tag = ''link'', attrs = [(''rel'', ''stylesheet''), (''href'', ''css/s.css'')],
         text_of = None\<rparr>]"

definition example_css :: string where
  "example_css = ''@import \"fonts.css\"; a { b: url(icon.svg) }''"

definition example_env :: env where
  "example_env =
     \<lparr>utcnow_stamp = ''20260101000000'', utcnow_iso = ''2026-01-01T00:00:05'',
      get_page = (\<lambda>u. if u = ''http://ex.com/'' then Inr example_page else Inl ''404''),
      get_css = (\<lambda>u. Inr (200, example_css)),
      get_asset = (\<lambda>u. if u = ''http://ex.com/b.png'' then Inl ''timeout'' else Inr ''abc''),
      write_error = (\<lambda>p. None), rewrite_error = None, zip_error = None,
      disk = [(''index.html'', File (Page [])),
              (''ex.com'', Dir [(''a.png'', File (Raw ''abc''))])],
      time_start = 0, time_downloads = 100, time_batch = (\<lambda>k. 700), time_end = 5200\<rparr>"

definition example_manifest :: info where
  "example_manifest =
     \<lparr>cloned_from = ''http://ex.com/'', timestamp_utc = ''2026-01-01T00:00:05Z'',
      total_files_downloaded = 5, downloaded_bytes = 12,
      zip_name = ''stark_20260101000000.zip''\<rparr>"

text \<open>
  The kinds of events that the ordering of a stream is about, \<open>precedes\<close> (every event
  of the first kind comes before every event of the second), and the stage of the pipeline
  that yields an event.
\<close>

definition is_meta :: "event \<Rightarrow> bool" where
  "is_meta ev = (case ev of Meta n \<Rightarrow> True | _ \<Rightarrow> False)"

definition is_asset_event :: "event \<Rightarrow> bool" where
  "is_asset_event ev =
     (case ev of Asset url saved n \<Rightarrow> True | AssetError url e \<Rightarrow> True | _ \<Rightarrow> False)"

definition is_rewriting :: "event \<Rightarrow> bool" where
  "is_rewriting ev = (ev = Status ''rewriting_html'')"

definition is_manifest_event :: "event \<Rightarrow> bool" where
  "is_manifest_event ev =
     (case ev of
        Status s \<Rightarrow> s = ''creating_info_json'' \<or> s = ''info_json_created''
      | Error stage e \<Rightarrow> stage = ''info_json_failed''
      | _ \<Rightarrow> False)"

definition is_archive_event :: "event \<Rightarrow> bool" where
  "is_archive_event ev =
     (case ev of
        Status s \<Rightarrow> s = ''creating_zip'' \<or> s = ''zip_created''
      | Error stage e \<Rightarrow> stage = ''zip_failed''
      | Done zip_path zipped_name elapsed \<Rightarrow> True
      | _ \<Rightarrow> False)"

definition precedes :: "(event \<Rightarrow> bool) \<Rightarrow> (event \<Rightarrow> bool) \<Rightarrow> event list \<Rightarrow> bool" where
  "precedes P Q evs =
     (\<forall>i<length evs. \<forall>j<length evs. P (evs ! i) \<and> Q (evs ! j) \<longrightarrow> i < j)"

definition phase :: "event \<Rightarrow> nat" where
  "phase ev =
     (case ev of
        Status s \<Rightarrow>
          if s = ''rewriting_html'' then 3
          else if s = ''html_rewritten'' then 4
          else if s = ''creating_info_json'' \<or> s = ''info_json_created'' then 5
          else if s = ''creating_zip'' \<or> s = ''zip_created'' then 6
          else 0
      | Meta n \<Rightarrow> 1
      | Asset url saved n \<Rightarrow> 2
      | AssetError url e \<Rightarrow> 2
      | Progress btotal speed \<Rightarrow> 2
      | Error stage e \<Rightarrow>
          if stage = ''rewrite_failed'' then 4
          else if stage = ''info_json_failed'' then 5
          else if stage = ''zip_failed'' then 6
          else 0
      | Done zip_path zipped_name elapsed \<Rightarrow> 7)"

text \<open>The run of the pipeline on this page.\<close>

definition example_run :: run where
  "example_run =
     \<lparr>events =
        [Status ''fetching_html'', Status ''fetched_html'',
         Status ''fetching_css http://ex.com/css/s.css'', Meta 6,
         Asset ''http://ex.com/a.png'' ''/tmp/stark_clone_20260101000000/ex.com/a.png'' 3,
         Asset ''http://ex.com/css/s.css''
           ''/tmp/stark_clone_20260101000000/ex.com/css/s.css'' 3,
         AssetError (Some ''http://ex.com/b.png'') ''timeout'',
         Asset ''http://ex.com/icon.svg''
           ''/tmp/stark_clone_20260101000000/ex.com/icon.svg'' 3,
         Asset ''http://ex.com/fonts.css''
           ''/tmp/stark_clone_20260101000000/ex.com/fonts.css'' 3,
         Progress 12 20, Status ''rewriting_html'', Status ''html_rewritten'',
         Status ''creating_info_json'', Status ''info_json_created'',
         Status ''creating_zip'', Status ''zip_created'',
         Done ''/tmp/stark_20260101000000.zip'' ''stark_20260101000000.zip'' 5],
      ending = Returned,
      rewritten =
        Some [\<lparr>tag = ''img'', attrs = [(''src'', ''ex.com/a.png'')], text_of = None\<rparr>,
              \<lparr>tag = ''div'',
                 attrs = [(''style'', ''background:url('' @ [CHR 0x27] @ ''ex.com/b.png''
                                      @ [CHR 0x27] @ '')'')],
                 text_of = None\<rparr>,
              \<lparr>tag = ''link'',
                 attrs = [(''rel'', ''stylesheet''), (''href'', ''ex.com/css/s.css'')],
                 text_of = None\<rparr>],
      manifest = Some example_manifest,
      workspace =
        [(''index.html'', File (Page [])),
         (''ex.com'', Dir [(''a.png'', File (Raw ''abc''))]),
         (''info.json'', File (Manifest example_manifest))],
      archive =
        Some [(''index.html'', Page []),
              (''info.json'', Manifest example_manifest),
              (''ex.com/a.png'', Raw ''abc'')]\<rparr>"

definition is_done :: "event \<Rightarrow> bool" where
  "is_done ev = (case ev of Done zip_path zipped_name elapsed \<Rightarrow> True | _ \<Rightarrow> False)"

text \<open>A page with nine images; every request succeeds.\<close>

definition nine_page :: document where
  "nine_page =
     map (\<lambda>name. \<lparr>tag = ''img'', attrs = [(''src'', ''/'' @ name @ ''.png'')],
                  text_of = None\<rparr>)
       [''logo'', ''hero'', ''team'', ''map'', ''shop'', ''blog'', ''news'', ''jobs'', ''foot'']"

definition nine_env :: env where
  "nine_env =
     \<lparr>utcnow_stamp = ''20260101000000'', utcnow_iso = ''2026-01-01T00:00:05'',
      get_page = (\<lambda>u. Inr nine_page),
      get_css = (\<lambda>u. Inl ''unused''),
      get_asset = (\<lambda>u. Inr ''abc''),
      write_error = (\<lambda>p. None), rewrite_error = None, zip_error = None,
      disk = [], time_start = 0, time_downloads = 0, time_batch = (\<lambda>k. 0), time_end = 0\<rparr>"

text \<open>
  The references of a stylesheet text: the \<open>url(...)\<close> groups, stripped and not empty,
  and the \<open>@import\<close> targets; and the texts of the stylesheets that were fetched with
  status 200.
\<close>

definition css_references :: "string \<Rightarrow> string set" where
  "css_references css_text =
     {m \<in> strip quote_chars ` set (findall_css_url css_text). m \<noteq> []}
     \<union> set (findall_import css_text)"

definition fetched_css :: "env \<Rightarrow> string list \<Rightarrow> string set" where
  "fetched_css env links = {css_text. \<exists>css_url\<in>set links. get_css env css_url = Inr (200, css_text)}"








text \<open>A page whose only element is an image with an empty \<open>srcset\<close>.\<close>

definition empty_srcset_page :: document where
  "empty_srcset_page = [\<lparr>tag = ''img'', attrs = [(''srcset'', '''')], text_of = None\<rparr>]"

section \<open>Properties\<close>

subsection \<open>The Local Path Mapper\<close>

lemma endswith_slash: "endswith s ''/'' \<longleftrightarrow> s \<noteq> [] \<and> last s = CHR ''/''"
proof (cases s rule: rev_cases)
  case Nil
  then show ?thesis by (simp add: endswith_def)
next
  case (snoc ys y)
  then show ?thesis by (simp add: endswith_def)
qed








lemma slash_allowed: "CHR ''/'' \<notin> spec_disallowed"
  by (simp add: spec_disallowed_def)

lemma safe_filename_from_url_unfold:
  "safe_filename_from_url url =
     (let f0 = lstrip ''/'' (spec_default_path (path (urlparse url)));
          a = re_sub_unsafe (os_path_join (spec_replace_colon (netloc (urlparse url)))
                (if f0 = [] then ''index.html'' else f0))
      in if query (urlparse url) \<noteq> []
         then a @ ''_'' @ take 40 (re_sub_non_alnum (query (urlparse url))) else a)"
  by (simp add: safe_filename_from_url_def spec_default_path_def spec_replace_colon_def
      Let_def endswith_slash)



subsection \<open>The example run\<close>

lemma example_run_eq: "sse_generator example_env ''ex.com/'' = example_run"
  by code_simp

subsection \<open>The manifest's byte count\<close>

lemma asset_sizes_simps:
  "asset_sizes [] = 0"
  "asset_sizes (ev # evs) = asset_size ev + asset_sizes evs"
  "asset_sizes (xs @ ys) = asset_sizes xs + asset_sizes ys"
  by (simp_all add: asset_sizes_def)

lemma asset_size_simps:
  "asset_size (Status s) = 0" "asset_size (Meta n) = 0" "asset_size (Asset u p n) = n"
  "asset_size (AssetError ou e) = 0" "asset_size (Progress a b) = 0"
  "asset_size (Error sg e) = 0" "asset_size (Done zp zn el) = 0"
  by (simp_all add: asset_size_def)

lemma events_emit: "events (emit evs r) = evs @ events r"
  by (simp add: emit_def)

lemma manifest_emit: "manifest (emit evs r) = manifest r"
  by (simp add: emit_def)

lemma download_and_save_bytes:
  "download_and_save env root st url = (ev, st')
   \<Longrightarrow> bytes_downloaded st' = bytes_downloaded st + asset_size ev"
  by (auto simp: download_and_save_def Let_def asset_size_simps
           split: sum.splits option.splits)

lemma gather_bytes:
  "gather env root st urls = (Some rs, st')
   \<Longrightarrow> bytes_downloaded st' = bytes_downloaded st + asset_sizes (emitted rs)"
proof (induction urls arbitrary: st rs st')
  case Nil
  then show ?case by (simp add: emitted_def asset_sizes_simps)
next
  case (Cons url urls)
  from Cons.prems have free: "sem st \<noteq> 0" by (auto split: if_splits)
  obtain ev st1 where d: "download_and_save env root (st\<lparr>sem := sem st - 1\<rparr>) url = (ev, st1)"
    by (cases "download_and_save env root (st\<lparr>sem := sem st - 1\<rparr>) url")
  obtain rs1 st2 where g: "gather env root st1 urls = (rs1, st2)"
    by (cases "gather env root st1 urls")
  from Cons.prems free d g obtain rs2 where
    rs1: "rs1 = Some rs2" and rs: "rs = Inr (Some ev) # rs2" and st': "st' = st2"
    by (auto simp: Let_def)
  have "bytes_downloaded st2 = bytes_downloaded st1 + asset_sizes (emitted rs2)"
    using g rs1 by (auto intro: Cons.IH)
  moreover have "bytes_downloaded st1 = bytes_downloaded st + asset_size ev"
    using download_and_save_bytes [OF d] by simp
  ultimately show ?case
    by (simp add: rs st' emitted_def asset_sizes_simps)
qed

lemma progress_bytes:
  "progress env k st = (pevs, st')
   \<Longrightarrow> bytes_downloaded st' = bytes_downloaded st \<and> asset_sizes pevs = 0"
  by (auto simp: progress_def Let_def asset_sizes_simps asset_size_simps split: if_splits)

lemma run_tasks_and_emit_bytes:
  "run_tasks_and_emit env root st k tasks = (evs, st', fin) \<Longrightarrow> fin
   \<Longrightarrow> bytes_downloaded st' = bytes_downloaded st + asset_sizes evs"
proof (induction env root st k tasks arbitrary: evs st' fin rule: run_tasks_and_emit.induct)
  case (1 env root st k tasks)
  show ?case
  proof (cases "tasks = []")
    case True
    with "1.prems" show ?thesis
      by (simp add: run_tasks_and_emit.simps asset_sizes_simps)
  next
    case False
    obtain res st1 where g: "gather env root st (take CONCURRENT_DOWNLOADS tasks) = (res, st1)"
      by (cases "gather env root st (take CONCURRENT_DOWNLOADS tasks)")
    show ?thesis
    proof (cases res)
      case None
      with "1.prems" False g show ?thesis
        by (simp add: run_tasks_and_emit.simps)
    next
      case (Some results)
      obtain pevs st2 where p: "progress env k st1 = (pevs, st2)"
        by (cases "progress env k st1")
      obtain evs2 st3 fin2 where r: "run_tasks_and_emit env root st2 (Suc k)
          (drop CONCURRENT_DOWNLOADS tasks) = (evs2, st3, fin2)"
        by (cases "run_tasks_and_emit env root st2 (Suc k) (drop CONCURRENT_DOWNLOADS tasks)")
      from "1.prems" False g Some p r
      have eq: "evs = emitted results @ pevs @ evs2" "st' = st3" "fin2"
        by (simp_all add: run_tasks_and_emit.simps [of env root st k tasks])
      have "bytes_downloaded st3 = bytes_downloaded st2 + asset_sizes evs2"
        using "1.IH" [OF False _ _ _ _ r \<open>fin2\<close>] g Some p by simp
      moreover have "bytes_downloaded st1 = bytes_downloaded st + asset_sizes (emitted results)"
        using g Some by (auto intro: gather_bytes)
      moreover note progress_bytes [OF p]
      ultimately show ?thesis by (simp add: eq asset_sizes_simps)
    qed
  qed
qed


lemma package_stage_bytes:
  "asset_sizes (events (package_stage env root z page mf entries)) = 0"
  "manifest (package_stage env root z page mf entries) = mf"
  by (simp_all add: package_stage_def asset_sizes_simps asset_size_simps split: option.splits)

lemma manifest_stage_bytes:
  "asset_sizes (events (manifest_stage env w root z page st)) = 0"
  "manifest (manifest_stage env w root z page st) = Some m
   \<Longrightarrow> downloaded_bytes m = bytes_downloaded st"
  by (auto simp: manifest_stage_def Let_def events_emit manifest_emit package_stage_bytes
        asset_sizes_simps asset_size_simps split: sum.splits)

lemma rewrite_stage_bytes:
  "asset_sizes (events (rewrite_stage env w root z html st)) = 0"
  "manifest (rewrite_stage env w root z html st) = Some m
   \<Longrightarrow> downloaded_bytes m = bytes_downloaded st"
  by (auto simp: rewrite_stage_def events_emit manifest_emit manifest_stage_bytes
        asset_sizes_simps asset_size_simps split: option.splits)

lemma download_stage_bytes:
  assumes "manifest (download_stage env w root z html urls) = Some m"
  shows "downloaded_bytes m = asset_sizes (events (download_stage env w root z html urls))"
proof -
  define st0 where "st0 = \<lparr>bytes_downloaded = 0, bytes_since_last = 0,
      last_update = time_downloads env, downloaded_files = [], sem = CONCURRENT_DOWNLOADS\<rparr>"
  obtain evs st fin where r: "run_tasks_and_emit env root st0 0 urls = (evs, st, fin)"
    by (cases "run_tasks_and_emit env root st0 0 urls")
  have d: "download_stage env w root z html urls =
             (if fin then emit evs (rewrite_stage env w root z html st) else stop evs Hung)"
    using r by (simp add: download_stage_def Let_def st0_def)
  from assms d have fin by (auto simp: stop_def split: if_splits)
  have b: "bytes_downloaded st = asset_sizes evs"
    using run_tasks_and_emit_bytes [OF r \<open>fin\<close>] by (simp add: st0_def)
  from assms d \<open>fin\<close> have "manifest (rewrite_stage env w root z html st) = Some m"
    by (simp add: manifest_emit)
  then have "downloaded_bytes m = bytes_downloaded st"
    by (rule rewrite_stage_bytes)
  then show ?thesis
    using d \<open>fin\<close> b by (simp add: events_emit asset_sizes_simps rewrite_stage_bytes)
qed

lemma fetch_css_sizes: "asset_sizes (fst (fetch_css env w links urls)) = 0"
  by (induction links arbitrary: urls)
     (simp_all add: Let_def asset_sizes_simps asset_size_simps split_beta)

text \<open>
  Claim C4.  In every run that writes a manifest, its \<open>downloaded_bytes\<close> is the sum of
  the \<open>size\<close> fields of the \<open>asset\<close> events of the run; an \<open>asset_error\<close> event adds
  nothing to it.
\<close>

theorem manifest_downloaded_bytes:
  assumes "manifest (sse_generator env web) = Some m"
  shows "downloaded_bytes m = asset_sizes (events (sse_generator env web))"
proof (cases "get_page env (ensure_scheme web)")
  case (Inl e)
  with assms show ?thesis by (simp add: sse_generator_def Let_def stop_def)
next
  case (Inr html)
  define w where "w = ensure_scheme web"
  define root where "root = make_workspace env"
  define z where "z = zipped_name_of root"
  define d where "d = discover env w html"
  define pre where "pre = [Status ''fetching_html'', Status ''fetched_html''] @ fst d
                          @ [Meta (length (snd d) + 1)]"
  have pre0: "asset_sizes pre = 0"
    by (simp add: pre_def d_def discover_def Let_def split_beta asset_sizes_simps
        asset_size_simps fetch_css_sizes)
  have g: "sse_generator env web =
             emit pre (case write_error env (os_path_join root ''index.html'') of
                         Some e \<Rightarrow> stop [] (Raised e)
                       | None \<Rightarrow> download_stage env w root z html (snd d))"
    unfolding sse_generator_def Let_def w_def root_def z_def d_def pre_def Inr by simp
  show ?thesis
  proof (cases "write_error env (os_path_join root ''index.html'')")
    case (Some e)
    with assms g show ?thesis by (simp add: manifest_emit stop_def)
  next
    case None
    with assms g have "manifest (download_stage env w root z html (snd d)) = Some m"
      by (simp add: manifest_emit)
    then have "downloaded_bytes m
                 = asset_sizes (events (download_stage env w root z html (snd d)))"
      by (rule download_stage_bytes)
    with g None pre0 show ?thesis by (simp add: events_emit asset_sizes_simps)
  qed
qed

theorem manifest_downloaded_bytes_witness:
  "manifest (sse_generator example_env ''ex.com/'') = Some example_manifest
   \<and> downloaded_bytes example_manifest
       = asset_sizes (events (sse_generator example_env ''ex.com/''))
   \<and> downloaded_bytes example_manifest = 12"
proof -
  have h: "manifest (sse_generator example_env ''ex.com/'') = Some example_manifest"
    by (simp add: example_run_eq example_run_def)
  have v: "downloaded_bytes example_manifest = 12"
    by (simp add: example_manifest_def)
  show ?thesis
    using h v manifest_downloaded_bytes [OF h] by simp
qed

subsection \<open>The order of the events\<close>

lemma phase_simps:
  "phase (Meta n) = 1" "phase (Asset url saved n) = 2" "phase (AssetError ou e) = 2"
  "phase (Progress btotal speed) = 2" "phase (Done zp zn el) = 7"
  "phase (Status ''fetching_html'') = 0" "phase (Status ''fetched_html'') = 0"
  "phase (Status (''fetching_css '' @ c)) = 0"
  "phase (Status ''rewriting_html'') = 3" "phase (Status ''html_rewritten'') = 4"
  "phase (Status ''creating_info_json'') = 5" "phase (Status ''info_json_created'') = 5"
  "phase (Status ''creating_zip'') = 6" "phase (Status ''zip_created'') = 6"
  "phase (Error ''failed_fetch_html'' e) = 0" "phase (Error ''rewrite_failed'' e) = 4"
  "phase (Error ''info_json_failed'' e) = 5" "phase (Error ''zip_failed'' e) = 6"
  by (simp_all add: phase_def)

lemma phase_kinds:
  "is_meta ev \<Longrightarrow> phase ev = 1"
  "is_asset_event ev \<Longrightarrow> phase ev = 2"
  "is_rewriting ev \<Longrightarrow> phase ev = 3"
  "is_manifest_event ev \<Longrightarrow> phase ev = 5"
  "is_archive_event ev \<Longrightarrow> 6 \<le> phase ev"
  by (auto simp: is_meta_def is_asset_event_def is_rewriting_def is_manifest_event_def
        is_archive_event_def phase_def split: event.splits)

lemma sorted_phase_precedes:
  assumes "sorted (map phase evs)"
    and "\<And>ev. P ev \<Longrightarrow> phase ev \<le> a" and "\<And>ev. Q ev \<Longrightarrow> a < phase ev"
  shows "precedes P Q evs"
  unfolding precedes_def
proof (intro allI impI)
  fix i j
  assume i: "i < length evs" and j: "j < length evs" and pq: "P (evs ! i) \<and> Q (evs ! j)"
  show "i < j"
  proof (rule ccontr)
    assume "\<not> i < j"
    then have "j \<le> i" by simp
    with assms(1) i have "map phase evs ! j \<le> map phase evs ! i"
      by (simp add: sorted_iff_nth_mono)
    with i j have "phase (evs ! j) \<le> phase (evs ! i)" by simp
    with assms(2,3) pq show False by fastforce
  qed
qed


lemma download_and_save_phase:
  "download_and_save env root st url = (ev, st') \<Longrightarrow> phase ev = 2"
  by (auto simp: download_and_save_def Let_def phase_simps split: sum.splits option.splits)

lemma gather_phase:
  "gather env root st urls = (Some rs, st') \<Longrightarrow> \<forall>ev\<in>set (emitted rs). phase ev = 2"
proof (induction urls arbitrary: st rs st')
  case Nil
  then show ?case by (simp add: emitted_def)
next
  case (Cons url urls)
  from Cons.prems have free: "sem st \<noteq> 0" by (auto split: if_splits)
  obtain ev st1 where d: "download_and_save env root (st\<lparr>sem := sem st - 1\<rparr>) url = (ev, st1)"
    by (cases "download_and_save env root (st\<lparr>sem := sem st - 1\<rparr>) url")
  obtain rs1 st2 where g: "gather env root st1 urls = (rs1, st2)"
    by (cases "gather env root st1 urls")
  from Cons.prems free d g obtain rs2 where
    rs1: "rs1 = Some rs2" and rs: "rs = Inr (Some ev) # rs2"
    by (auto simp: Let_def)
  have "\<forall>ev\<in>set (emitted rs2). phase ev = 2"
    using Cons.IH [of st1 rs2 st2] g rs1 by simp
  moreover have "phase ev = 2" using d by (rule download_and_save_phase)
  ultimately show ?case by (simp add: rs emitted_def)
qed

lemma progress_phase:
  "progress env k st = (pevs, st') \<Longrightarrow> \<forall>ev\<in>set pevs. phase ev = 2"
  by (auto simp: progress_def Let_def phase_simps split: if_splits)

lemma run_tasks_and_emit_phase:
  "run_tasks_and_emit env root st k tasks = (evs, st', fin) \<Longrightarrow> \<forall>ev\<in>set evs. phase ev = 2"
proof (induction env root st k tasks arbitrary: evs st' fin rule: run_tasks_and_emit.induct)
  case (1 env root st k tasks)
  show ?case
  proof (cases "tasks = []")
    case True
    with "1.prems" show ?thesis by (simp add: run_tasks_and_emit.simps)
  next
    case False
    obtain res st1 where g: "gather env root st (take CONCURRENT_DOWNLOADS tasks) = (res, st1)"
      by (cases "gather env root st (take CONCURRENT_DOWNLOADS tasks)")
    show ?thesis
    proof (cases res)
      case None
      with "1.prems" False g show ?thesis by (simp add: run_tasks_and_emit.simps)
    next
      case (Some results)
      obtain pevs st2 where p: "progress env k st1 = (pevs, st2)"
        by (cases "progress env k st1")
      obtain evs2 st3 fin2 where r: "run_tasks_and_emit env root st2 (Suc k)
          (drop CONCURRENT_DOWNLOADS tasks) = (evs2, st3, fin2)"
        by (cases "run_tasks_and_emit env root st2 (Suc k) (drop CONCURRENT_DOWNLOADS tasks)")
      from "1.prems" False g Some p r
      have eq: "evs = emitted results @ pevs @ evs2"
        by (simp add: run_tasks_and_emit.simps [of env root st k tasks])
      have "\<forall>ev\<in>set evs2. phase ev = 2"
        using "1.IH" [OF False _ _ _ _ r] g Some p by simp
      moreover have "\<forall>ev\<in>set (emitted results). phase ev = 2"
        using gather_phase [of env root st "take CONCURRENT_DOWNLOADS tasks" results st1] g Some
        by simp
      moreover note progress_phase [OF p]
      ultimately show ?thesis by (auto simp: eq)
    qed
  qed
qed

lemma package_stage_phase:
  "sorted (map phase (events (package_stage env root z page mf entries)))"
  "\<forall>ev\<in>set (events (package_stage env root z page mf entries)). 6 \<le> phase ev"
  by (simp_all add: package_stage_def phase_simps split: option.splits)

lemma manifest_stage_phase:
  "sorted (map phase (events (manifest_stage env w root z page st)))"
  "\<forall>ev\<in>set (events (manifest_stage env w root z page st)). 5 \<le> phase ev"
  using package_stage_phase [of env root z page]
  by (fastforce simp: manifest_stage_def Let_def events_emit phase_simps sorted_append
        split: sum.splits)+

lemma rewrite_stage_phase:
  "sorted (map phase (events (rewrite_stage env w root z html st)))"
  "\<forall>ev\<in>set (events (rewrite_stage env w root z html st)). 3 \<le> phase ev"
  using manifest_stage_phase [of env w root z _ st]
  by (fastforce simp: rewrite_stage_def events_emit phase_simps sorted_append
        split: option.splits)+


lemma const_phase_sorted: "\<forall>ev\<in>set evs. phase ev = c \<Longrightarrow> sorted (map phase evs)"
  by (induction evs) auto

lemma download_stage_phase:
  "sorted (map phase (events (download_stage env w root z html urls)))
   \<and> (\<forall>ev\<in>set (events (download_stage env w root z html urls)). 2 \<le> phase ev)"
proof -
  define st0 where "st0 = \<lparr>bytes_downloaded = 0, bytes_since_last = 0,
      last_update = time_downloads env, downloaded_files = [], sem = CONCURRENT_DOWNLOADS\<rparr>"
  obtain evs st fin where r: "run_tasks_and_emit env root st0 0 urls = (evs, st, fin)"
    by (cases "run_tasks_and_emit env root st0 0 urls")
  have d: "download_stage env w root z html urls =
             (if fin then emit evs (rewrite_stage env w root z html st) else stop evs Hung)"
    using r by (simp add: download_stage_def Let_def st0_def)
  have two: "\<forall>ev\<in>set evs. phase ev = 2"
    using r by (rule run_tasks_and_emit_phase)
  then have s: "sorted (map phase evs)" by (rule const_phase_sorted)
  show ?thesis
  proof (cases fin)
    case False
    with d s two show ?thesis by (simp add: stop_def)
  next
    case True
    have rs: "sorted (map phase (events (rewrite_stage env w root z html st)))"
      and r3: "\<forall>ev\<in>set (events (rewrite_stage env w root z html st)). 3 \<le> phase ev"
      by (rule rewrite_stage_phase)+
    have "\<forall>x\<in>set evs. \<forall>y\<in>set (events (rewrite_stage env w root z html st)). phase x \<le> phase y"
      using two r3 by fastforce
    moreover have "\<forall>ev\<in>set (events (rewrite_stage env w root z html st)). 2 \<le> phase ev"
      using r3 by fastforce
    ultimately show ?thesis
      using True d s rs two by (auto simp: events_emit sorted_append)
  qed
qed

lemma fetch_css_phase: "\<forall>ev\<in>set (fst (fetch_css env w links urls)). phase ev = 0"
  by (induction links arbitrary: urls) (simp_all add: Let_def split_beta phase_def)

lemma sse_generator_events:
  "(\<exists>e. events (sse_generator env web) = [Status ''fetching_html'', Error ''failed_fetch_html'' e])
   \<or> (\<exists>pre n post. events (sse_generator env web) = pre @ [Meta n] @ post
         \<and> (\<forall>ev\<in>set pre. phase ev = 0) \<and> (\<forall>ev\<in>set post. 2 \<le> phase ev)
         \<and> sorted (map phase post))"
proof (cases "get_page env (ensure_scheme web)")
  case (Inl e)
  then show ?thesis by (simp add: sse_generator_def Let_def stop_def)
next
  case (Inr html)
  define w where "w = ensure_scheme web"
  define root where "root = make_workspace env"
  define z where "z = zipped_name_of root"
  define d where "d = discover env w html"
  define pre where "pre = [Status ''fetching_html'', Status ''fetched_html''] @ fst d"
  define post where "post = events (case write_error env (os_path_join root ''index.html'') of
                         Some e \<Rightarrow> stop [] (Raised e)
                       | None \<Rightarrow> download_stage env w root z html (snd d))"
  have pre0: "\<forall>ev\<in>set pre. phase ev = 0"
    using fetch_css_phase [of env w]
    by (simp add: pre_def d_def discover_def Let_def split_beta phase_simps)
  have g: "events (sse_generator env web) = pre @ [Meta (length (snd d) + 1)] @ post"
    unfolding sse_generator_def Let_def w_def root_def z_def d_def pre_def post_def Inr
    by (simp add: events_emit)
  have "(\<forall>ev\<in>set post. 2 \<le> phase ev) \<and> sorted (map phase post)"
    using download_stage_phase [of env w root z html "snd d"]
    by (cases "write_error env (os_path_join root ''index.html'')")
       (simp_all add: post_def stop_def)
  with g pre0 show ?thesis by blast
qed

lemma sse_generator_sorted: "sorted (map phase (events (sse_generator env web)))"
  using sse_generator_events [of env web]
proof (elim disjE exE conjE)
  fix e
  assume "events (sse_generator env web) = [Status ''fetching_html'', Error ''failed_fetch_html'' e]"
  then show ?thesis by (simp add: phase_simps)
next
  fix pre n post
  assume ev: "events (sse_generator env web) = pre @ [Meta n] @ post"
    and pre: "\<forall>ev\<in>set pre. phase ev = 0" and post: "\<forall>ev\<in>set post. 2 \<le> phase ev"
    and s: "sorted (map phase post)"
  have "sorted (map phase pre)" using pre by (rule const_phase_sorted)
  moreover have "\<forall>y\<in>set post. 1 \<le> phase y" using post by fastforce
  ultimately show ?thesis
    using pre s by (simp add: ev sorted_append phase_simps)
qed

lemma sse_generator_one_meta: "length (filter is_meta (events (sse_generator env web))) \<le> 1"
proof -
  have no: "phase ev \<noteq> 1 \<Longrightarrow> \<not> is_meta ev" for ev
    using phase_kinds(1) by blast
  from sse_generator_events [of env web] show ?thesis
  proof (elim disjE exE conjE)
    fix e
    assume "events (sse_generator env web) = [Status ''fetching_html'', Error ''failed_fetch_html'' e]"
    then show ?thesis by (simp add: is_meta_def)
  next
    fix pre n post
    assume ev: "events (sse_generator env web) = pre @ [Meta n] @ post"
      and pre: "\<forall>ev\<in>set pre. phase ev = 0" and post: "\<forall>ev\<in>set post. 2 \<le> phase ev"
    have "filter is_meta pre = []" using pre no by (auto simp: filter_empty_conv)
    moreover have "filter is_meta post = []" using post no by (fastforce simp: filter_empty_conv)
    ultimately show ?thesis by (simp add: ev)
  qed
qed

text \<open>
  Claim C6.  In the events of one run there is at most one \<open>meta\<close> event; it comes before
  every \<open>asset\<close> and \<open>asset_error\<close> event; each of these comes before
  \<open>status: rewriting_html\<close>; and that event comes before every event of the manifest
  stage and of the archive stage, \<open>done\<close> included.
\<close>

theorem event_order:
  "length (filter is_meta (events (sse_generator env web))) \<le> 1
   \<and> precedes is_meta is_asset_event (events (sse_generator env web))
   \<and> precedes is_asset_event is_rewriting (events (sse_generator env web))
   \<and> precedes is_rewriting is_manifest_event (events (sse_generator env web))
   \<and> precedes is_rewriting is_archive_event (events (sse_generator env web))"
proof (intro conjI)
  note s = sse_generator_sorted [of env web]
  show "length (filter is_meta (events (sse_generator env web))) \<le> 1"
    by (rule sse_generator_one_meta)
  show "precedes is_meta is_asset_event (events (sse_generator env web))"
    using s by (rule sorted_phase_precedes [where a = 1]) (simp_all add: phase_kinds)
  show "precedes is_asset_event is_rewriting (events (sse_generator env web))"
    using s by (rule sorted_phase_precedes [where a = 2]) (simp_all add: phase_kinds)
  show "precedes is_rewriting is_manifest_event (events (sse_generator env web))"
    using s by (rule sorted_phase_precedes [where a = 3]) (simp_all add: phase_kinds)
  show "precedes is_rewriting is_archive_event (events (sse_generator env web))"
  proof (rule sorted_phase_precedes [where a = 3])
    show "sorted (map phase (events (sse_generator env web)))" by (rule s)
    show "phase ev \<le> 3" if "is_rewriting ev" for ev
      using that by (simp add: phase_kinds)
    show "3 < phase ev" if "is_archive_event ev" for ev
      using phase_kinds(5) [OF that] by simp
  qed
qed

theorem event_order_witness:
  "precedes is_meta is_asset_event (events (sse_generator example_env ''ex.com/''))
   \<and> precedes is_asset_event is_rewriting (events (sse_generator example_env ''ex.com/''))
   \<and> precedes is_rewriting is_manifest_event (events (sse_generator example_env ''ex.com/''))
   \<and> precedes is_rewriting is_archive_event (events (sse_generator example_env ''ex.com/''))
   \<and> is_meta (events (sse_generator example_env ''ex.com/'') ! 3)
   \<and> is_asset_event (events (sse_generator example_env ''ex.com/'') ! 4)
   \<and> is_asset_event (events (sse_generator example_env ''ex.com/'') ! 6)
   \<and> is_rewriting (events (sse_generator example_env ''ex.com/'') ! 10)
   \<and> is_manifest_event (events (sse_generator example_env ''ex.com/'') ! 12)
   \<and> is_archive_event (events (sse_generator example_env ''ex.com/'') ! 16)"
proof -
  have "is_meta (events example_run ! 3)" "is_asset_event (events example_run ! 4)"
    "is_asset_event (events example_run ! 6)" "is_rewriting (events example_run ! 10)"
    "is_manifest_event (events example_run ! 12)" "is_archive_event (events example_run ! 16)"
    by (simp_all add: example_run_def is_meta_def is_asset_event_def is_rewriting_def
        is_manifest_event_def is_archive_event_def)
  then show ?thesis
    using event_order [of example_env "''ex.com/''"] by (simp add: example_run_eq)
qed

subsection \<open>The semaphore of the download stage\<close>

lemma download_and_save_sem:
  "download_and_save env root st url = (ev, st') \<Longrightarrow> sem st' = sem st \<and> is_asset_event ev"
  by (auto simp: download_and_save_def Let_def is_asset_event_def
           split: sum.splits option.splits)

lemma gather_enough_permits:
  "length urls \<le> sem st \<Longrightarrow>
   \<exists>rs st'. gather env root st urls = (Some rs, st') \<and> sem st' = sem st - length urls
     \<and> length (emitted rs) = length urls \<and> (\<forall>ev\<in>set (emitted rs). is_asset_event ev)"
proof (induction urls arbitrary: st)
  case Nil
  then show ?case by (simp add: emitted_def)
next
  case (Cons url urls)
  then have free: "sem st \<noteq> 0" by auto
  obtain ev st1 where d: "download_and_save env root (st\<lparr>sem := sem st - 1\<rparr>) url = (ev, st1)"
    by (cases "download_and_save env root (st\<lparr>sem := sem st - 1\<rparr>) url")
  from download_and_save_sem [OF d] have s1: "sem st1 = sem st - 1" and a: "is_asset_event ev"
    by simp_all
  with Cons.prems have "length urls \<le> sem st1" by simp
  from Cons.IH [OF this] obtain rs st2 where
    g: "gather env root st1 urls = (Some rs, st2)" and s2: "sem st2 = sem st1 - length urls"
    and l: "length (emitted rs) = length urls" and e: "\<forall>ev\<in>set (emitted rs). is_asset_event ev"
    by blast
  have "gather env root st (url # urls) = (Some (Inr (Some ev) # rs), st2)"
    using free d g by simp
  moreover have "emitted (Inr (Some ev) # rs) = ev # emitted rs"
    by (simp add: emitted_def)
  ultimately show ?case using s1 s2 l e a by simp
qed

lemma gather_no_permit:
  "sem st = 0 \<Longrightarrow> urls \<noteq> [] \<Longrightarrow> gather env root st urls = (None, st)"
  by (cases urls) simp_all

lemma progress_sem:
  "progress env k st = (pevs, st') \<Longrightarrow> sem st' = sem st \<and> (\<forall>ev\<in>set pevs. \<not> is_asset_event ev)"
  by (auto simp: progress_def Let_def is_asset_event_def split: if_splits)

text \<open>One batch fits the semaphore; a second batch finds it empty.\<close>

lemma run_tasks_and_emit_first_batch:
  assumes "sem st = CONCURRENT_DOWNLOADS" "tasks \<noteq> []"
  shows "\<exists>evs st'. run_tasks_and_emit env root st k tasks
                      = (evs, st', length tasks \<le> CONCURRENT_DOWNLOADS)
           \<and> length (filter is_asset_event evs) = min (length tasks) CONCURRENT_DOWNLOADS
           \<and> (\<forall>ev\<in>set evs. phase ev = 2)"
proof -
  define batch where "batch = take CONCURRENT_DOWNLOADS tasks"
  define rest where "rest = drop CONCURRENT_DOWNLOADS tasks"
  have lb: "length batch = min (length tasks) CONCURRENT_DOWNLOADS"
    by (simp add: batch_def min.commute)
  then have "length batch \<le> sem st" using assms(1) by simp
  from gather_enough_permits [OF this] obtain rs st1 where
    g: "gather env root st batch = (Some rs, st1)" and s1: "sem st1 = sem st - length batch"
    and l: "length (emitted rs) = length batch" and e: "\<forall>ev\<in>set (emitted rs). is_asset_event ev"
    by blast
  obtain pevs st2 where p: "progress env k st1 = (pevs, st2)"
    by (cases "progress env k st1")
  from progress_sem [OF p] have s2: "sem st2 = sem st1"
    and np: "\<forall>ev\<in>set pevs. \<not> is_asset_event ev" by simp_all
  have fa: "filter is_asset_event (emitted rs @ pevs) = emitted rs"
    using e np by (simp add: filter_empty_conv)
  have ph: "\<forall>ev\<in>set (emitted rs @ pevs). phase ev = 2"
    using gather_phase [OF g] progress_phase [OF p] by auto
  show ?thesis
  proof (cases "rest = []")
    case True
    then have le: "length tasks \<le> CONCURRENT_DOWNLOADS" by (simp add: rest_def)
    have "run_tasks_and_emit env root st2 (Suc k) rest = ([], st2, True)"
      using True by (simp add: run_tasks_and_emit.simps)
    then have "run_tasks_and_emit env root st k tasks = (emitted rs @ pevs, st2, True)"
      using assms(2) g p
      by (simp add: run_tasks_and_emit.simps [of env root st k tasks] batch_def rest_def)
    with le fa l lb ph show ?thesis by simp
  next
    case False
    then have gt: "\<not> length tasks \<le> CONCURRENT_DOWNLOADS" by (simp add: rest_def)
    then have "length batch = CONCURRENT_DOWNLOADS" using lb by simp
    then have "sem st2 = 0" using s1 s2 assms(1) by simp
    then have "gather env root st2 (take CONCURRENT_DOWNLOADS rest) = (None, st2)"
      using False by (intro gather_no_permit) (simp_all add: CONCURRENT_DOWNLOADS_def)
    then have "run_tasks_and_emit env root st2 (Suc k) rest = ([], st2, False)"
      using False by (simp add: run_tasks_and_emit.simps [of env root st2 "Suc k" rest])
    then have "run_tasks_and_emit env root st k tasks = (emitted rs @ pevs, st2, False)"
      using assms(2) g p
      by (simp add: run_tasks_and_emit.simps [of env root st k tasks] batch_def rest_def)
    with gt fa l lb ph show ?thesis by simp
  qed
qed


lemma download_stage_outcome:
  "\<exists>evs st. (\<forall>ev\<in>set evs. phase ev = 2)
     \<and> length (filter is_asset_event evs) = min (length urls) CONCURRENT_DOWNLOADS
     \<and> download_stage env w root z html urls =
         (if length urls \<le> CONCURRENT_DOWNLOADS
          then emit evs (rewrite_stage env w root z html st) else stop evs Hung)"
proof -
  define st0 where "st0 = \<lparr>bytes_downloaded = 0, bytes_since_last = 0,
      last_update = time_downloads env, downloaded_files = [], sem = CONCURRENT_DOWNLOADS\<rparr>"
  have d: "download_stage env w root z html urls =
             (let r = run_tasks_and_emit env root st0 0 urls
              in if snd (snd r) then emit (fst r) (rewrite_stage env w root z html (fst (snd r)))
                 else stop (fst r) Hung)"
    by (simp add: download_stage_def st0_def Let_def)
  show ?thesis
  proof (cases "urls = []")
    case True
    then have "run_tasks_and_emit env root st0 0 urls = ([], st0, True)"
      by (simp add: run_tasks_and_emit.simps)
    with True d show ?thesis by (intro exI [of _ "[]"] exI [of _ st0]) simp
  next
    case False
    have "sem st0 = CONCURRENT_DOWNLOADS" by (simp add: st0_def)
    from run_tasks_and_emit_first_batch [OF this False, of env root 0] obtain evs st' where
      r: "run_tasks_and_emit env root st0 0 urls = (evs, st', length urls \<le> CONCURRENT_DOWNLOADS)"
      and c: "length (filter is_asset_event evs) = min (length urls) CONCURRENT_DOWNLOADS"
      and p: "\<forall>ev\<in>set evs. phase ev = 2"
      by blast
    from d r have "download_stage env w root z html urls =
         (if length urls \<le> CONCURRENT_DOWNLOADS
          then emit evs (rewrite_stage env w root z html st') else stop evs Hung)"
      by simp
    with c p show ?thesis by blast
  qed
qed

lemma no_asset_event_phase: "phase ev \<noteq> 2 \<Longrightarrow> \<not> is_asset_event ev"
  using phase_kinds(2) by blast

text \<open>
  A run that finds more than \<open>CONCURRENT_DOWNLOADS\<close> assets: the first batch takes every
  permit of the semaphore and never gives one back, the second batch waits for ever.
\<close>

lemma sse_generator_stalls:
  assumes "get_page env (ensure_scheme web) = Inr html"
    and "write_error env (os_path_join (make_workspace env) ''index.html'') = None"
    and "CONCURRENT_DOWNLOADS < length (snd (discover env (ensure_scheme web) html))"
  shows "\<exists>pre evs. sse_generator env web
            = stop (pre @ [Meta (length (snd (discover env (ensure_scheme web) html)) + 1)] @ evs)
                Hung
          \<and> (\<forall>ev\<in>set pre. phase ev = 0) \<and> (\<forall>ev\<in>set evs. phase ev = 2)
          \<and> length (filter is_asset_event evs) = CONCURRENT_DOWNLOADS"
proof -
  define w where "w = ensure_scheme web"
  define root where "root = make_workspace env"
  define z where "z = zipped_name_of root"
  define d where "d = discover env w html"
  define pre where "pre = [Status ''fetching_html'', Status ''fetched_html''] @ fst d"
  have pre0: "\<forall>ev\<in>set pre. phase ev = 0"
    using fetch_css_phase [of env w]
    by (simp add: pre_def d_def discover_def Let_def split_beta phase_simps)
  have g: "sse_generator env web
             = emit (pre @ [Meta (length (snd d) + 1)]) (download_stage env w root z html (snd d))"
    unfolding sse_generator_def Let_def w_def root_def z_def d_def pre_def assms(1)
    using assms(2) by simp
  from download_stage_outcome [of "snd d" env w root z html] assms(3) obtain evs where
    p: "\<forall>ev\<in>set evs. phase ev = 2"
    and c: "length (filter is_asset_event evs) = CONCURRENT_DOWNLOADS"
    and s: "download_stage env w root z html (snd d) = stop evs Hung"
    by (auto simp: d_def w_def)
  have "sse_generator env web = stop (pre @ [Meta (length (snd d) + 1)] @ evs) Hung"
    by (simp add: g s emit_def stop_def)
  with pre0 p c show ?thesis unfolding d_def w_def by blast
qed

text \<open>
  Claim C1 (a defect of the code).  When more than \<open>CONCURRENT_DOWNLOADS\<close> asset URLs are
  discovered, the run yields its one \<open>meta\<close> event with \<open>total_items = N + 1\<close> and then
  only \<open>CONCURRENT_DOWNLOADS\<close> \<open>asset\<close>/\<open>asset_error\<close> events, not \<open>N\<close>, and never
  ends.
\<close>

theorem more_than_eight_assets_dropped:
  assumes "get_page env (ensure_scheme web) = Inr html"
    and "write_error env (os_path_join (make_workspace env) ''index.html'') = None"
    and "CONCURRENT_DOWNLOADS < length (snd (discover env (ensure_scheme web) html))"
  shows "ending (sse_generator env web) = Hung
         \<and> filter is_meta (events (sse_generator env web))
             = [Meta (length (snd (discover env (ensure_scheme web) html)) + 1)]
         \<and> length (filter is_asset_event (events (sse_generator env web)))
             = CONCURRENT_DOWNLOADS"
proof -
  from sse_generator_stalls [OF assms] obtain pre evs where
    g: "sse_generator env web
          = stop (pre @ [Meta (length (snd (discover env (ensure_scheme web) html)) + 1)] @ evs)
              Hung"
    and pre: "\<forall>ev\<in>set pre. phase ev = 0" and evs: "\<forall>ev\<in>set evs. phase ev = 2"
    and c: "length (filter is_asset_event evs) = CONCURRENT_DOWNLOADS"
    by blast
  have nm: "phase ev \<noteq> 1 \<Longrightarrow> \<not> is_meta ev" for ev
    using phase_kinds(1) by blast
  have "filter is_meta pre = []" "filter is_meta evs = []" "filter is_asset_event pre = []"
    using pre evs nm no_asset_event_phase by (auto simp: filter_empty_conv)
  then show ?thesis
    using c by (simp add: g stop_def is_meta_def is_asset_event_def)
qed


lemma nine_discovered:
  "snd (discover nine_env (ensure_scheme ''ex.com/'') nine_page) =
     [''http://ex.com/logo.png'', ''http://ex.com/hero.png'', ''http://ex.com/team.png'',
      ''http://ex.com/map.png'', ''http://ex.com/shop.png'', ''http://ex.com/blog.png'',
      ''http://ex.com/news.png'', ''http://ex.com/jobs.png'', ''http://ex.com/foot.png'']"
  by code_simp

theorem more_than_eight_assets_dropped_witness:
  "get_page nine_env (ensure_scheme ''ex.com/'') = Inr nine_page
   \<and> length (snd (discover nine_env (ensure_scheme ''ex.com/'') nine_page)) = 9
   \<and> ending (sse_generator nine_env ''ex.com/'') = Hung
   \<and> filter is_meta (events (sse_generator nine_env ''ex.com/'')) = [Meta 10]
   \<and> length (filter is_asset_event (events (sse_generator nine_env ''ex.com/''))) = 8"
proof -
  have h1: "get_page nine_env (ensure_scheme ''ex.com/'') = Inr nine_page"
    by (simp add: nine_env_def)
  have h2: "write_error nine_env (os_path_join (make_workspace nine_env) ''index.html'') = None"
    by (simp add: nine_env_def)
  have h3: "CONCURRENT_DOWNLOADS
              < length (snd (discover nine_env (ensure_scheme ''ex.com/'') nine_page))"
    by (simp add: nine_discovered CONCURRENT_DOWNLOADS_def)
  show ?thesis
    using more_than_eight_assets_dropped [OF h1 h2 h3] h1
    by (simp add: nine_discovered CONCURRENT_DOWNLOADS_def)
qed

text \<open>
  Claim C5 (a defect of the code).  A run that fetched its page and found more than
  \<open>CONCURRENT_DOWNLOADS\<close> assets meets no fatal failure, and yet it never yields
  \<open>done\<close> and writes no archive: it waits for ever in the download stage.
\<close>

theorem more_than_eight_assets_no_done:
  assumes "get_page env (ensure_scheme web) = Inr html"
    and "write_error env (os_path_join (make_workspace env) ''index.html'') = None"
    and "CONCURRENT_DOWNLOADS < length (snd (discover env (ensure_scheme web) html))"
  shows "ending (sse_generator env web) = Hung
         \<and> archive (sse_generator env web) = None
         \<and> filter is_done (events (sse_generator env web)) = []"
proof -
  from sse_generator_stalls [OF assms] obtain pre evs where
    g: "sse_generator env web
          = stop (pre @ [Meta (length (snd (discover env (ensure_scheme web) html)) + 1)] @ evs)
              Hung"
    and pre: "\<forall>ev\<in>set pre. phase ev = 0" and evs: "\<forall>ev\<in>set evs. phase ev = 2"
    by blast
  have nd: "phase ev \<noteq> 7 \<Longrightarrow> \<not> is_done ev" for ev
    by (auto simp: is_done_def phase_def split: event.splits)
  have "filter is_done pre = []" "filter is_done evs = []"
    using pre evs nd by (auto simp: filter_empty_conv)
  then show ?thesis
    by (simp add: g stop_def is_done_def)
qed

theorem more_than_eight_assets_no_done_witness:
  "get_page nine_env (ensure_scheme ''ex.com/'') = Inr nine_page
   \<and> length (snd (discover nine_env (ensure_scheme ''ex.com/'') nine_page)) = 9
   \<and> rewrite_error nine_env = None \<and> zip_error nine_env = None
   \<and> ending (sse_generator nine_env ''ex.com/'') = Hung
   \<and> archive (sse_generator nine_env ''ex.com/'') = None
   \<and> filter is_done (events (sse_generator nine_env ''ex.com/'')) = []"
proof -
  have h1: "get_page nine_env (ensure_scheme ''ex.com/'') = Inr nine_page"
    by (simp add: nine_env_def)
  have h2: "write_error nine_env (os_path_join (make_workspace nine_env) ''index.html'') = None"
    by (simp add: nine_env_def)
  have h3: "CONCURRENT_DOWNLOADS
              < length (snd (discover nine_env (ensure_scheme ''ex.com/'') nine_page))"
    by (simp add: nine_discovered CONCURRENT_DOWNLOADS_def)
  have h4: "rewrite_error nine_env = None \<and> zip_error nine_env = None"
    by (simp add: nine_env_def)
  show ?thesis
    using more_than_eight_assets_no_done [OF h1 h2 h3] h1 h4
    by (simp add: nine_discovered)
qed

subsection \<open>The references of the stylesheets\<close>

lemma set_set_add: "set (set_add s x) = insert x (set s)"
  by (auto simp: set_add_def)

lemma set_set_update: "set (set_update s xs) = set s \<union> set xs"
  unfolding set_update_def
  by (induction xs arbitrary: s) (auto simp: set_set_add)

lemma set_extract_css_urls_from_text:
  "set (extract_css_urls_from_text base_url css_text) = urljoin base_url ` css_references css_text"
  by (auto simp: extract_css_urls_from_text_def Let_def set_set_update css_references_def)

lemma fetched_css_Cons:
  "fetched_css env (u # links) =
     (case get_css env u of
        Inl e \<Rightarrow> {}
      | Inr r \<Rightarrow> if fst r = 200 then {snd r} else {}) \<union> fetched_css env links"
  by (auto simp: fetched_css_def split: sum.splits)

lemma set_fetch_css:
  "set (snd (fetch_css env web_url links asset_urls)) =
     set asset_urls \<union> (\<Union>t\<in>fetched_css env links. urljoin web_url ` css_references t)"
proof (induction links arbitrary: asset_urls)
  case Nil
  then show ?case by (simp add: fetched_css_def)
next
  case (Cons u links)
  show ?case
    by (cases "get_css env u")
       (auto simp: Let_def split_beta Cons.IH fetched_css_Cons set_set_update
          set_extract_css_urls_from_text)
qed

lemma set_discover:
  "set (snd (discover env web_url html)) =
     (set (find_asset_urls web_url html)
      \<union> (\<Union>t\<in>fetched_css env (css_links_of web_url html). urljoin web_url ` css_references t)
      \<union> set (css_links_of web_url html))
     - {web_url}"
  by (simp add: discover_def Let_def split_beta set_discard_def set_set_update set_fetch_css)



subsection \<open>The anchors of the Asset Extractor\<close>










subsection \<open>The Rewriter and empty attributes\<close>

lemma map_of_assign: "map_of (assign k v kvs) k = Some v"
  by (induction kvs) auto

lemma get_set_attr: "get (set_attr el attr v) attr = Some v"
  by (simp add: get_def set_attr_def map_of_assign)

lemma os_path_join_nonempty: "b \<noteq> [] \<Longrightarrow> os_path_join a b \<noteq> []"
  by (simp add: os_path_join_def)

lemma srcset_sources_empty: "srcset_sources [] = [[]]"
  by (simp add: srcset_sources_def py_strip_def before_first_def)

lemma safe_filename_from_url_nonempty: "safe_filename_from_url url \<noteq> []"
proof -
  define f0 where "f0 = lstrip ''/'' (spec_default_path (path (urlparse url)))"
  define f1 where "f1 = (if f0 = [] then ''index.html'' else f0)"
  have "f1 \<noteq> []" by (simp add: f1_def)
  then have "os_path_join (spec_replace_colon (netloc (urlparse url))) f1 \<noteq> []"
    by (rule os_path_join_nonempty)
  then have "re_sub_unsafe (os_path_join (spec_replace_colon (netloc (urlparse url))) f1) \<noteq> []"
    by (simp add: re_sub_unsafe_def)
  then show ?thesis
    unfolding safe_filename_from_url_unfold Let_def f0_def [symmetric] f1_def [symmetric]
    by simp
qed

lemma urljoin_empty: "web_url \<noteq> [] \<Longrightarrow> urljoin web_url [] = web_url"
  unfolding urljoin_def by (simp only: if_False if_True refl)

text \<open>
  Claim C7 (a defect of the code).  The \<open>srcset\<close> loop of the Rewriter has no test for
  an empty source: an element whose \<open>srcset\<close> attribute is empty is not skipped, its
  attribute becomes the local path of the page itself.
\<close>

theorem empty_srcset_is_rewritten:
  assumes "get el ''srcset'' = Some []" and "web_url \<noteq> []"
  shows "get (rewrite_srcset web_url el) ''srcset'' = Some (safe_filename_from_url web_url)
         \<and> rewrite_srcset web_url el \<noteq> el"
proof -
  have j: "urljoin web_url [] = web_url"
    using assms(2) by (rule urljoin_empty)
  have r: "rewrite_srcset web_url el = set_attr el ''srcset'' (safe_filename_from_url web_url)"
    using assms(1) by (simp add: rewrite_srcset_def srcset_sources_empty j)
  then have g: "get (rewrite_srcset web_url el) ''srcset'' = Some (safe_filename_from_url web_url)"
    by (simp add: get_set_attr)
  moreover have "rewrite_srcset web_url el \<noteq> el"
  proof
    assume "rewrite_srcset web_url el = el"
    with g assms(1) have "safe_filename_from_url web_url = []" by simp
    then show False by (simp add: safe_filename_from_url_nonempty)
  qed
  ultimately show ?thesis by simp
qed

theorem empty_srcset_is_rewritten_witness:
  "get (hd empty_srcset_page) ''srcset'' = Some []
   \<and> get (rewrite_srcset ''http://ex.com/'' (hd empty_srcset_page)) ''srcset''
       = Some ''ex.com/index.html''
   \<and> rewrite_document ''http://ex.com/'' empty_srcset_page
       = [\<lparr>tag = ''img'', attrs = [(''srcset'', ''ex.com/index.html'')], text_of = None\<rparr>]
   \<and> find_asset_urls ''http://ex.com/'' empty_srcset_page = []"
proof -
  have h: "get (hd empty_srcset_page) ''srcset'' = Some []"
    by (simp add: empty_srcset_page_def get_def)
  have w: "''http://ex.com/'' \<noteq> []" by simp
  have s: "safe_filename_from_url ''http://ex.com/'' = ''ex.com/index.html''"
    by code_simp
  have d: "rewrite_document ''http://ex.com/'' empty_srcset_page
       = [\<lparr>tag = ''img'', attrs = [(''srcset'', ''ex.com/index.html'')], text_of = None\<rparr>]"
    by code_simp
  have f: "find_asset_urls ''http://ex.com/'' empty_srcset_page = []"
    by code_simp
  have "get (rewrite_srcset ''http://ex.com/'' (hd empty_srcset_page)) ''srcset''
          = Some ''ex.com/index.html''"
    using empty_srcset_is_rewritten [OF h w] unfolding s by (rule conjunct1)
  then show ?thesis
    using h d f by (intro conjI)
qed

end
